theory Spec2Isabelle
  imports Main "HOL-Library.AList" "HOL-Library.Multiset"
begin

section \<open>The pipeline context of qiime2/sdk/context.py\<close>

text \<open>
  The module defines one class, \<open>Context\<close>. Its methods call into collaborators that
  live in other modules: the plugin manager, the action objects and their signatures, the
  cache with its lock and its two pools, the artifact importer and the parallel
  configuration. Every call to a collaborator is recorded as an event of the world, so that
  "this was never called" and "this ran under the lock" are statements about the event log.
  Python exceptions are values of type \<open>error\<close>; a function that can raise returns
  \<open>error + 'a\<close> together with the world it leaves behind.
\<close>

subsection \<open>Values, errors, cached records\<close>

text \<open>
  \<open>ValueError_plugin\<close> and \<open>ValueError_action\<close> are the two \<open>ValueError\<close>s of
  \<open>get_action\<close>; they carry the strings that the source formats into the message.
\<close>

datatype error =
    KeyError
  | AssertionError
  | IndexError
  | AttributeError
  | ValueError_plugin string
  | ValueError_action string string
  | OtherError string

text \<open>An argument of a call: \<open>Proxy\<close> is an instance of \<open>qiime2.sdk.proxy.Proxy\<close>.\<close>

datatype pyval = Value string | Proxy string

type_synonym kwargs = "(string \<times> pyval) list"

text \<open>A reference names a result object, a pool handle or a stored element.\<close>

type_synonym ref = string

text \<open>The key of one element of a cached collection.\<close>

record elem_info =
  item_name :: string
  idx :: int
  total :: int

text \<open>
  What the index holds for one output name: a reference for a scalar output, a dict from
  element keys to references for a collection.
\<close>

datatype pyobj = Ref ref | ElemDict "(elem_info \<times> ref) list"

text \<open>
  \<open>HashableInvocation(plugin_action, arguments)\<close>: \<open>arguments\<close> is a list of
  single-entry dicts.
\<close>

datatype invocation = HashableInvocation string "(string \<times> pyval) list list"

datatype loaded = LoadedResult ref | ResultCollection "(string \<times> ref) list"

text \<open>
  What a call of an action gives back: \<open>Results\<close> of names and values, or the deferred
  result the parallel binding returns.
\<close>

datatype result_set = Results "(string \<times> loaded) list" | DeferredResult string

subsection \<open>Pools and the cache\<close>

text \<open>
  Modelled from the spec: the pool class of \<open>qiime2.core.cache\<close> is not part of the
  module. Section 6 gives its contract: \<open>save(resource) \<rightarrow> handle\<close> and
  \<open>load(handle) \<rightarrow> resource | KeyError\<close>. A pool holds the pairs of handle and resource
  saved into it; \<open>handle_for\<close> is the handle the pool gives out for a resource.
\<close>

record pool =
  contents :: "(ref \<times> ref) list"
  handle_for :: "ref \<Rightarrow> ref"

record named_pool = pool +
  index :: "(invocation \<times> (string \<times> pyobj) list) list"

definition save :: "'a pool_scheme \<Rightarrow> ref \<Rightarrow> ref \<times> 'a pool_scheme" where
  "save p r = (handle_for p r, p\<lparr>contents := contents p @ [(handle_for p r, r)]\<rparr>)"

text \<open>A dict is the handle of no stored element.\<close>

fun load :: "'a pool_scheme \<Rightarrow> pyobj \<Rightarrow> error + ref" where
  "load p (Ref h) = (case map_of (contents p) h of None \<Rightarrow> Inl KeyError | Some r \<Rightarrow> Inr r)"
| "load p (ElemDict d) = Inl KeyError"

record cache_t =
  process_pool :: pool
  named_pool :: "named_pool option"

subsection \<open>The world\<close>

datatype event =
    LockEnter nat
  | LockExit nat
  | CreateIndex nat
  | CollateInputs
  | CoerceUserInput
  | IndexProbe nat invocation
  | PoolLoad nat pyobj
  | ProcessSave nat ref
  | NamedSave nat ref
  | ImportData string string "string option"
  | Bind
  | BindParsl

text \<open>
  Cache objects are shared between contexts, so they live in a store and a context holds
  the address of its cache.
\<close>

record world =
  cache_store :: "nat \<Rightarrow> cache_t"
  events :: "event list"

definition log :: "event \<Rightarrow> world \<Rightarrow> world" where
  "log e w = w\<lparr>events := events w @ [e]\<rparr>"

definition set_cache :: "nat \<Rightarrow> cache_t \<Rightarrow> world \<Rightarrow> world" where
  "set_cache c ch w = w\<lparr>cache_store := (cache_store w)(c := ch)\<rparr>"

subsection \<open>Contexts, actions, the environment\<close>

datatype context_t = Context
  (action_executor_mapping: "(string \<times> string) list")
  (executor_name_type_mapping: "(string \<times> string) list option")
  (parallel: bool)
  (cache: nat)
  (parent: "context_t option")

text \<open>
  An action object, as far as the module uses it: the declared outputs (name, and whether
  \<open>is_collection_type\<close> holds of its type), the two steps of the signature that normalise
  the arguments, and the two ways to run it.
\<close>

record action =
  outputs :: "(string \<times> bool) list"
  collate_inputs :: "pyval list \<Rightarrow> kwargs \<Rightarrow> error + kwargs"
  coerce_user_input :: "kwargs \<Rightarrow> error + kwargs"
  bind_local :: "(world \<Rightarrow> context_t \<times> world) \<Rightarrow> pyval list \<Rightarrow> kwargs \<Rightarrow> world
    \<Rightarrow> (error + result_set) \<times> world"
  bind_parsl :: "context_t \<Rightarrow> pyval list \<Rightarrow> kwargs \<Rightarrow> world \<Rightarrow> (error + result_set) \<times> world"

record plugin =
  actions :: "(string \<times> action) list"

record executor =
  label :: string
  class_name :: string

record parallel_config_t =
  cfg_action_executor_mapping :: "(string \<times> string) list"
  parallel_config :: "executor list option"

text \<open>
  The collaborators the module reads but does not define: the plugins of the plugin
  manager, \<open>PARALLEL_CONFIG\<close>, the cache \<open>get_cache()\<close> returns, the pool's
  \<open>create_index\<close> and \<open>Artifact.import_data\<close>.
\<close>

record env =
  plugins :: "(string \<times> plugin) list"
  PARALLEL_CONFIG :: parallel_config_t
  get_cache :: nat
  create_index :: "named_pool \<Rightarrow> named_pool"
  import_data :: "string \<Rightarrow> string \<Rightarrow> string option \<Rightarrow> error + ref"

subsection \<open>\<open>Context.__init__\<close>\<close>

definition Context_init :: "env \<Rightarrow> context_t option \<Rightarrow> bool \<Rightarrow> world \<Rightarrow> context_t \<times> world" where
  "Context_init env parent_arg parallel_arg w =
     (case parent_arg of
        Some p \<Rightarrow>
          (Context (action_executor_mapping p) (executor_name_type_mapping p)
             (parallel p) (cache p) (Some p), w)
      | None \<Rightarrow>
          (let aem = cfg_action_executor_mapping (PARALLEL_CONFIG env);
               entm = (case parallel_config (PARALLEL_CONFIG env) of
                         None \<Rightarrow> None
                       | Some execs \<Rightarrow>
                           Some (fold (\<lambda>v m. AList.update (label v) (class_name v) m) execs []));
               c = get_cache env;
               w1 = log (LockEnter c) w;
               w2 = (case named_pool (cache_store w1 c) of
                       None \<Rightarrow> w1
                     | Some np \<Rightarrow>
                         log (CreateIndex c)
                           (set_cache c
                              ((cache_store w1 c)\<lparr>named_pool := Some (create_index env np)\<rparr>) w1))
           in (Context aem entm parallel_arg c None, log (LockExit c) w2)))"

subsection \<open>\<open>_contains_proxies\<close> and \<open>_validate_collection\<close>\<close>

fun is_proxy :: "pyval \<Rightarrow> bool" where
  "is_proxy (Proxy _) = True"
| "is_proxy (Value _) = False"

definition contains_proxies :: "pyval list \<Rightarrow> kwargs \<Rightarrow> bool" where
  "contains_proxies args kw = (list_ex is_proxy args \<or> list_ex is_proxy (map snd kw))"

text \<open>
  On the empty list \<open>all([...])\<close> is true without reading \<open>collection_order[0]\<close>; the
  second assertion then reads it and raises \<open>IndexError\<close>.
\<close>

definition validate_collection :: "elem_info list \<Rightarrow> error + unit" where
  "validate_collection collection_order =
     (case collection_order of
        [] \<Rightarrow> Inl IndexError
      | first # _ \<Rightarrow>
          if \<not> list_all (\<lambda>elem. total elem = total first) collection_order
          then Inl AssertionError
          else if int (length collection_order) \<noteq> total first
          then Inl AssertionError
          else Inr ())"

subsection \<open>\<open>_load_cache\<close>\<close>

definition named_pool_load :: "context_t \<Rightarrow> pyobj \<Rightarrow> world \<Rightarrow> (error + ref) \<times> world" where
  "named_pool_load self obj w =
     (case named_pool (cache_store w (cache self)) of
        None \<Rightarrow> (Inl AttributeError, w)
      | Some np \<Rightarrow> (load np obj, log (PoolLoad (cache self) obj) w))"

text \<open>The inner loop, lines 149 to 153: one load per element key, in the given order.\<close>

fun load_collection ::
  "context_t \<Rightarrow> (elem_info \<times> ref) list \<Rightarrow> elem_info list \<Rightarrow> (string \<times> ref) list \<Rightarrow> world
    \<Rightarrow> (error + (string \<times> ref) list) \<times> world" where
  "load_collection self cached_collection [] loaded_collection w = (Inr loaded_collection, w)"
| "load_collection self cached_collection (elem_info # rest) loaded_collection w =
     (case map_of cached_collection elem_info of
        None \<Rightarrow> (Inl KeyError, w)
      | Some elem \<Rightarrow>
          (case named_pool_load self (Ref elem) w of
             (Inl e, w') \<Rightarrow> (Inl e, w')
           | (Inr loaded_elem, w') \<Rightarrow>
               load_collection self cached_collection rest
                 (AList.update (item_name elem_info) loaded_elem loaded_collection) w'))"

text \<open>The body of the branch for a collection output, lines 141 to 155.\<close>

definition load_collection_output ::
  "context_t \<Rightarrow> pyobj \<Rightarrow> world \<Rightarrow> (error + (string \<times> ref) list) \<times> world" where
  "load_collection_output self cached w =
     (case cached of
        Ref _ \<Rightarrow> (Inl AttributeError, w)
      | ElemDict cached_collection \<Rightarrow>
          (let collection_order = map fst cached_collection in
           case validate_collection collection_order of
             Inl e \<Rightarrow> (Inl e, w)
           | Inr _ \<Rightarrow>
               load_collection self cached_collection (sort_key idx collection_order) [] w))"

text \<open>The loop over the declared outputs, lines 139 to 159.\<close>

fun load_outputs ::
  "context_t \<Rightarrow> (string \<times> pyobj) list \<Rightarrow> (string \<times> bool) list \<Rightarrow> (string \<times> loaded) list \<Rightarrow> world
    \<Rightarrow> (error + (string \<times> loaded) list) \<times> world" where
  "load_outputs self cached_outputs [] loaded_outputs w = (Inr loaded_outputs, w)"
| "load_outputs self cached_outputs ((name, is_coll) # rest) loaded_outputs w =
     (case map_of cached_outputs name of
        None \<Rightarrow> (Inl KeyError, w)
      | Some cached \<Rightarrow>
          if is_coll then
            (case load_collection_output self cached w of
               (Inl e, w') \<Rightarrow> (Inl e, w')
             | (Inr loaded_collection, w') \<Rightarrow>
                 load_outputs self cached_outputs rest
                   (AList.update name (ResultCollection loaded_collection) loaded_outputs) w')
          else
            (case named_pool_load self cached w of
               (Inl e, w') \<Rightarrow> (Inl e, w')
             | (Inr r, w') \<Rightarrow>
                 load_outputs self cached_outputs rest
                   (AList.update name (LoadedResult r) loaded_outputs) w'))"

definition load_cache ::
  "context_t \<Rightarrow> action \<Rightarrow> invocation \<Rightarrow> world \<Rightarrow> (error + result_set) \<times> world" where
  "load_cache self action_obj invocation_key w =
     (case named_pool (cache_store w (cache self)) of
        None \<Rightarrow> (Inl AttributeError, w)
      | Some np \<Rightarrow>
          (case map_of (index np) invocation_key of
             None \<Rightarrow> (Inl KeyError, w)
           | Some cached_outputs \<Rightarrow>
               (case load_outputs self cached_outputs (outputs action_obj) [] w of
                  (Inl e, w') \<Rightarrow> (Inl e, w')
                | (Inr loaded_outputs, w') \<Rightarrow> (Inr (Results loaded_outputs), w'))))"

subsection \<open>\<open>get_action\<close> and the callable it returns\<close>

text \<open>
  Lines 117 to 126: the action is run, through the parallel binding when the context is
  parallel, and else bound to a factory of child contexts.
\<close>

definition execute ::
  "env \<Rightarrow> context_t \<Rightarrow> action \<Rightarrow> pyval list \<Rightarrow> kwargs \<Rightarrow> world \<Rightarrow> (error + result_set) \<times> world" where
  "execute env self action_obj args kw w =
     (if parallel self
      then bind_parsl action_obj self args kw (log BindParsl w)
      else bind_local action_obj (Context_init env (Some self) False) args kw (log Bind w))"

text \<open>
  What the \<open>with self.cache.lock\<close> block of \<open>deferred_action\<close> (lines 77 to 101) ends
  in: a \<open>return\<close>, an exception that leaves it, or its end, after which the function goes
  on to run the action.
\<close>

datatype probe = Return result_set | Raise error | FallThrough

text \<open>
  Lines 89 to 93: the arguments as a list of single-entry dicts, in the order of
  \<open>callable_args\<close>, paired with the qualified action name.
\<close>

definition invocation_of :: "string \<Rightarrow> kwargs \<Rightarrow> invocation" where
  "invocation_of plugin_action callable_args =
     (let arguments = map (\<lambda>(k, v). [(k, v)]) callable_args
      in HashableInvocation plugin_action arguments)"

definition cache_probe ::
  "context_t \<Rightarrow> string \<Rightarrow> action \<Rightarrow> pyval list \<Rightarrow> kwargs \<Rightarrow> world \<Rightarrow> probe \<times> world" where
  "cache_probe self plugin_action action_obj args kw w =
     (let c = cache self in
      case named_pool (cache_store w c) of
        None \<Rightarrow> (FallThrough, w)
      | Some np \<Rightarrow>
          if contains_proxies args kw then (FallThrough, w)
          else
            (case collate_inputs action_obj args kw of
               Inl e \<Rightarrow> (Raise e, log CollateInputs w)
             | Inr collated_inputs \<Rightarrow>
                 (case coerce_user_input action_obj collated_inputs of
                    Inl e \<Rightarrow> (Raise e, log CoerceUserInput (log CollateInputs w))
                  | Inr callable_args \<Rightarrow>
                      (let invocation_key = invocation_of plugin_action callable_args;
                           w1 = log (IndexProbe c invocation_key)
                                  (log CoerceUserInput (log CollateInputs w))
                       in if map_of (index np) invocation_key \<noteq> None
                          then (case load_cache self action_obj invocation_key w1 of
                                  (Inr r, w2) \<Rightarrow> (Return r, w2)
                                | (Inl e, w2) \<Rightarrow>
                                    if e = KeyError then (FallThrough, w2) else (Raise e, w2))
                          else (FallThrough, w1)))))"

text \<open>\<open>args[1:]\<close> drops the function itself, which the wrapper passes first.\<close>

definition deferred_action ::
  "env \<Rightarrow> context_t \<Rightarrow> string \<Rightarrow> action \<Rightarrow> pyval list \<Rightarrow> kwargs \<Rightarrow> world
    \<Rightarrow> (error + result_set) \<times> world" where
  "deferred_action env self plugin_action action_obj args0 kw w =
     (let args = drop 1 args0;
          c = cache self
      in case cache_probe self plugin_action action_obj args kw (log (LockEnter c) w) of
           (Return r, w') \<Rightarrow> (Inr r, log (LockExit c) w')
         | (Raise e, w') \<Rightarrow> (Inl e, log (LockExit c) w')
         | (FallThrough, w') \<Rightarrow> execute env self action_obj args kw (log (LockExit c) w'))"

text \<open>
  The callable \<open>get_action\<close> returns is the closure \<open>deferred_action\<close> over \<open>self\<close>,
  \<open>plugin_action\<close> and \<open>action_obj\<close>; the handle holds the three. The rewriting of the
  wrapper's signature changes what introspection shows, not what a call does.
\<close>

record handle =
  h_self :: context_t
  h_plugin_action :: string
  h_action_obj :: action

definition call_handle ::
  "env \<Rightarrow> handle \<Rightarrow> pyval list \<Rightarrow> kwargs \<Rightarrow> world \<Rightarrow> (error + result_set) \<times> world" where
  "call_handle env h args0 kw w =
     deferred_action env (h_self h) (h_plugin_action h) (h_action_obj h) args0 kw w"

text \<open>\<open>plugin.replace('_', '-')\<close>.\<close>

definition replace_underscores :: "string \<Rightarrow> string" where
  "replace_underscores s = map (\<lambda>ch. if ch = CHR ''_'' then CHR ''-'' else ch) s"

definition get_action :: "env \<Rightarrow> context_t \<Rightarrow> string \<Rightarrow> string \<Rightarrow> error + handle" where
  "get_action env self plugin_arg action_name =
     (let plugin_name = replace_underscores plugin_arg;
          plugin_action = plugin_name @ '':'' @ action_name
      in case map_of (plugins env) plugin_name of
           None \<Rightarrow> Inl (ValueError_plugin plugin_name)
         | Some plugin_obj \<Rightarrow>
             (case map_of (actions plugin_obj) action_name of
                None \<Rightarrow> Inl (ValueError_action action_name plugin_name)
              | Some action_obj \<Rightarrow>
                  Inr \<lparr>h_self = self, h_plugin_action = plugin_action,
                       h_action_obj = action_obj\<rparr>))"

subsection \<open>\<open>add_parent_reference\<close> and \<open>make_artifact\<close>\<close>

definition add_parent_reference :: "context_t \<Rightarrow> ref \<Rightarrow> world \<Rightarrow> ref \<times> world" where
  "add_parent_reference self r w =
     (let c = cache self;
          w1 = log (LockEnter c) w;
          ch = cache_store w1 c;
          (new_ref, pp) = save (process_pool ch) r;
          w2 = log (ProcessSave c r) (set_cache c (ch\<lparr>process_pool := pp\<rparr>) w1);
          w3 = (case named_pool (cache_store w2 c) of
                  None \<Rightarrow> w2
                | Some np \<Rightarrow>
                    log (NamedSave c new_ref)
                      (set_cache c
                         ((cache_store w2 c)\<lparr>named_pool := Some (snd (save np new_ref))\<rparr>) w2))
      in (new_ref, log (LockExit c) w3))"

definition make_artifact ::
  "env \<Rightarrow> context_t \<Rightarrow> string \<Rightarrow> string \<Rightarrow> string option \<Rightarrow> world \<Rightarrow> (error + ref) \<times> world" where
  "make_artifact env self type view view_type w =
     (let w1 = log (ImportData type view view_type) w in
      case import_data env type view view_type of
        Inl e \<Rightarrow> (Inl e, w1)
      | Inr artifact \<Rightarrow> (Inr artifact, snd (add_parent_reference self artifact w1)))"

section \<open>Vocabulary of the theorems and example values\<close>

fun no_effect :: "event \<Rightarrow> bool" where
  "no_effect Bind = False"
| "no_effect BindParsl = False"
| "no_effect (ProcessSave _ _) = False"
| "no_effect (NamedSave _ _) = False"
| "no_effect (CreateIndex _) = False"
| "no_effect (ImportData _ _ _) = False"
| "no_effect _ = True"

definition reads_only :: "world \<Rightarrow> world \<Rightarrow> bool" where
  "reads_only w w' =
     (cache_store w' = cache_store w \<and>
      take (length (events w)) (events w') = events w \<and>
      list_all no_effect (drop (length (events w)) (events w')))"

definition ctx0 :: context_t where
  "ctx0 = Context [] None False 0 None"

definition four_of_five :: "(elem_info \<times> ref) list" where
  "four_of_five =
     [(\<lparr>item_name = ''a'', idx = 0, total = 5\<rparr>, ''u0''),
      (\<lparr>item_name = ''b'', idx = 1, total = 5\<rparr>, ''u1''),
      (\<lparr>item_name = ''c'', idx = 2, total = 5\<rparr>, ''u2''),
      (\<lparr>item_name = ''d'', idx = 3, total = 5\<rparr>, ''u3'')]"

definition pool0 :: named_pool where
  "pool0 = \<lparr>contents = [(''u0'', ''r0''), (''u1'', ''r1''), (''u2'', ''r2''),
                         (''u3'', ''r3''), (''u4'', ''r4'')],
            handle_for = (\<lambda>r. ''named/'' @ r), index = []\<rparr>"

definition world0 :: world where
  "world0 = \<lparr>cache_store = (\<lambda>_. \<lparr>process_pool = \<lparr>contents = [], handle_for = (\<lambda>r. ''proc/'' @ r)\<rparr>,
                                   named_pool = Some pool0\<rparr>),
             events = []\<rparr>"

definition five_shuffled :: "(elem_info \<times> ref) list" where
  "five_shuffled =
     [(\<lparr>item_name = ''d'', idx = 3, total = 5\<rparr>, ''u3''),
      (\<lparr>item_name = ''a'', idx = 0, total = 5\<rparr>, ''u0''),
      (\<lparr>item_name = ''e'', idx = 4, total = 5\<rparr>, ''u4''),
      (\<lparr>item_name = ''c'', idx = 2, total = 5\<rparr>, ''u2''),
      (\<lparr>item_name = ''b'', idx = 1, total = 5\<rparr>, ''u1'')]"

inductive in_tree :: "env \<Rightarrow> context_t \<Rightarrow> context_t \<Rightarrow> bool" for env :: env and root :: context_t where
  in_tree_root: "in_tree env root root"
| in_tree_child: "in_tree env root p \<Longrightarrow> in_tree env root (fst (Context_init env (Some p) par w))"

definition kw0 :: kwargs where
  "kw0 = [(''x'', Value ''1'')]"

definition key0 :: invocation where
  "key0 = HashableInvocation ''p:a'' [[(''x'', Value ''1'')]]"

definition index_good :: "(invocation \<times> (string \<times> pyobj) list) list" where
  "index_good = [(key0, [(''out'', ElemDict five_shuffled), (''single'', Ref ''u0'')])]"

definition index_corrupt :: "(invocation \<times> (string \<times> pyobj) list) list" where
  "index_corrupt = [(key0, [(''out'', ElemDict four_of_five), (''single'', Ref ''u0'')])]"

definition world_with :: "named_pool \<Rightarrow> world" where
  "world_with np =
     \<lparr>cache_store = (\<lambda>_. \<lparr>process_pool = \<lparr>contents = [], handle_for = (\<lambda>r. ''proc/'' @ r)\<rparr>,
                          named_pool = Some np\<rparr>),
      events = []\<rparr>"

definition act0 :: action where
  "act0 = \<lparr>outputs = [(''out'', True), (''single'', False)],
           collate_inputs = (\<lambda>args kw. Inr kw),
           coerce_user_input = (\<lambda>kw. Inr kw),
           bind_local = (\<lambda>mk args kw w. (Inr (Results [(''ran'', LoadedResult ''fresh'')]), w)),
           bind_parsl = (\<lambda>ctx args kw w. (Inr (DeferredResult ''future''), w))\<rparr>"

definition env0 :: env where
  "env0 = \<lparr>plugins = [],
           PARALLEL_CONFIG = \<lparr>cfg_action_executor_mapping = [], parallel_config = None\<rparr>,
           get_cache = 0,
           create_index = (\<lambda>np. np\<lparr>index := index_good\<rparr>),
           import_data = (\<lambda>t v vt. Inr (''artifact-'' @ v))\<rparr>"

definition env1 :: env where
  "env1 = env0\<lparr>plugins := [(''feature-table'', \<lparr>actions = [(''filter_samples'', act0)]\<rparr>)]\<rparr>"

definition pool_good :: named_pool where
  "pool_good = pool0\<lparr>index := index_good\<rparr>"

definition pool_corrupt :: named_pool where
  "pool_corrupt = pool0\<lparr>index := index_corrupt\<rparr>"

definition pool_stale :: named_pool where
  "pool_stale = pool0\<lparr>contents := [], index := index_good\<rparr>"

definition world_good :: world where
  "world_good = world_with pool_good"

definition world_corrupt :: world where
  "world_corrupt = world_with pool_corrupt"

definition world_stale :: world where
  "world_stale = world_with pool_stale"

definition index_partial :: "(invocation \<times> (string \<times> pyobj) list) list" where
  "index_partial = [(key0, [(''out'', ElemDict five_shuffled)])]"

definition pool_partial :: named_pool where
  "pool_partial = pool0\<lparr>index := index_partial\<rparr>"

definition world_partial :: world where
  "world_partial = world_with pool_partial"

section \<open>Theorems\<close>

lemma events_log [simp]: "events (log e w) = events w @ [e]"
  by (simp add: log_def)

lemma cache_store_log [simp]: "cache_store (log e w) = cache_store w"
  by (simp add: log_def)

lemma events_set_cache [simp]: "events (set_cache c ch w) = events w"
  by (simp add: set_cache_def)

lemma cache_store_set_cache [simp]:
  "cache_store (set_cache c ch w) = (cache_store w)(c := ch)"
  by (simp add: set_cache_def)

lemma reads_only_refl: "reads_only w w"
  by (simp add: reads_only_def)

lemma reads_only_trans: "reads_only w w' \<Longrightarrow> reads_only w' w'' \<Longrightarrow> reads_only w w''"
proof -
  assume a: "reads_only w w'" and b: "reads_only w' w''"
  from a obtain xs where xs: "events w' = events w @ xs" "list_all no_effect xs"
    unfolding reads_only_def by (metis append_take_drop_id)
  from b obtain ys where ys: "events w'' = events w' @ ys" "list_all no_effect ys"
    unfolding reads_only_def by (metis append_take_drop_id)
  from a b have "cache_store w'' = cache_store w"
    by (simp add: reads_only_def)
  with xs ys show ?thesis
    by (simp add: reads_only_def)
qed

lemma reads_only_log: "no_effect e \<Longrightarrow> reads_only w (log e w)"
  by (simp add: reads_only_def)

lemma reads_only_log_trans: "reads_only w w' \<Longrightarrow> no_effect e \<Longrightarrow> reads_only w (log e w')"
  using reads_only_trans reads_only_log by blast

lemma named_pool_load_reads:
  "named_pool_load self obj w = (r, w') \<Longrightarrow> reads_only w w'"
  by (auto simp: named_pool_load_def reads_only_refl reads_only_log split: option.splits)

lemma load_collection_reads:
  "load_collection self cc order acc w = (r, w') \<Longrightarrow> reads_only w w'"
proof (induction order arbitrary: acc w)
  case Nil
  then show ?case by (simp add: reads_only_refl)
next
  case (Cons e rest)
  show ?case
  proof (cases "map_of cc e")
    case None
    with Cons.prems show ?thesis by (simp add: reads_only_refl)
  next
    case (Some elem)
    obtain r1 w1 where l: "named_pool_load self (Ref elem) w = (r1, w1)"
      by (cases "named_pool_load self (Ref elem) w")
    have s: "reads_only w w1" using l by (rule named_pool_load_reads)
    show ?thesis
    proof (cases r1)
      case (Inl err)
      with Cons.prems Some l s show ?thesis by simp
    next
      case (Inr v)
      with Cons.prems Some l
      have "load_collection self cc rest (AList.update (item_name e) v acc) w1 = (r, w')"
        by simp
      then have "reads_only w1 w'" by (rule Cons.IH)
      with s show ?thesis by (rule reads_only_trans)
    qed
  qed
qed

lemma load_collection_output_reads:
  "load_collection_output self cached w = (r, w') \<Longrightarrow> reads_only w w'"
  by (auto simp: load_collection_output_def Let_def reads_only_refl
      split: pyobj.splits sum.splits dest: load_collection_reads)

lemma load_outputs_reads:
  "load_outputs self co outs acc w = (r, w') \<Longrightarrow> reads_only w w'"
proof (induction outs arbitrary: acc w)
  case Nil
  then show ?case by (simp add: reads_only_refl)
next
  case (Cons out rest)
  obtain name is_coll where out: "out = (name, is_coll)" by (cases out)
  show ?case
  proof (cases "map_of co name")
    case None
    with Cons.prems out show ?thesis by (simp add: reads_only_refl)
  next
    case (Some cached)
    show ?thesis
    proof (cases is_coll)
      case True
      obtain r1 w1 where l: "load_collection_output self cached w = (r1, w1)"
        by (cases "load_collection_output self cached w")
      have s: "reads_only w w1" using l by (rule load_collection_output_reads)
      show ?thesis
      proof (cases r1)
        case (Inl err)
        with Cons.prems out Some True l s show ?thesis by simp
      next
        case (Inr v)
        with Cons.prems out Some True l
        have "load_outputs self co rest (AList.update name (ResultCollection v) acc) w1 = (r, w')"
          by simp
        then have "reads_only w1 w'" by (rule Cons.IH)
        with s show ?thesis by (rule reads_only_trans)
      qed
    next
      case False
      obtain r1 w1 where l: "named_pool_load self cached w = (r1, w1)"
        by (cases "named_pool_load self cached w")
      have s: "reads_only w w1" using l by (rule named_pool_load_reads)
      show ?thesis
      proof (cases r1)
        case (Inl err)
        with Cons.prems out Some False l s show ?thesis by simp
      next
        case (Inr v)
        with Cons.prems out Some False l
        have "load_outputs self co rest (AList.update name (LoadedResult v) acc) w1 = (r, w')"
          by simp
        then have "reads_only w1 w'" by (rule Cons.IH)
        with s show ?thesis by (rule reads_only_trans)
      qed
    qed
  qed
qed

lemma load_cache_reads:
  "load_cache self act key w = (r, w') \<Longrightarrow> reads_only w w'"
  by (auto simp: load_cache_def reads_only_refl
      split: option.splits sum.splits prod.splits dest: load_outputs_reads)

lemma cache_probe_reads:
  "cache_probe self pa act args kw w = (r, w') \<Longrightarrow> reads_only w w'"
  by (auto simp: cache_probe_def Let_def reads_only_refl
      split: option.splits sum.splits prod.splits if_splits
      intro!: reads_only_log reads_only_log_trans
      dest!: load_cache_reads
      elim: reads_only_trans[rotated])

lemma validate_collection_corrupt:
  assumes "(\<exists>a\<in>set order. \<exists>b\<in>set order. total a \<noteq> total b) \<or>
           (\<exists>a\<in>set order. int (length order) \<noteq> total a)"
  shows "validate_collection order = Inl AssertionError"
proof (cases order)
  case Nil
  with assms show ?thesis by simp
next
  case (Cons first rest)
  show ?thesis
  proof (cases "list_all (\<lambda>elem. total elem = total first) order")
    case False
    then show ?thesis using Cons by (simp add: validate_collection_def)
  next
    case True
    then have all: "\<forall>e\<in>set order. total e = total first"
      by (simp add: list_all_iff)
    with assms have "int (length order) \<noteq> total first"
      by metis
    with True Cons show ?thesis by (simp add: validate_collection_def)
  qed
qed

lemma load_outputs_corrupt:
  assumes "(name, True) \<in> set outs"
      and "map_of co name = Some (ElemDict cc)"
      and "validate_collection (map fst cc) = Inl err"
  shows "fst (load_outputs self co outs acc w) \<noteq> Inr res"
  using assms(1)
proof (induction outs arbitrary: acc w)
  case Nil
  then show ?case by simp
next
  case (Cons out rest)
  obtain n b where out: "out = (n, b)" by (cases out)
  show ?case
  proof (cases "n = name")
    case True
    show ?thesis
    proof (cases b)
      case True
      with \<open>n = name\<close> out assms(2,3) show ?thesis
        by (simp add: load_collection_output_def)
    next
      case False
      with \<open>n = name\<close> out assms(2) show ?thesis
        by (simp add: named_pool_load_def split: option.splits)
    qed
  next
    case False
    with Cons.prems out have "(name, True) \<in> set rest" by auto
    then have ih: "\<And>acc w. fst (load_outputs self co rest acc w) \<noteq> Inr res"
      by (rule Cons.IH)
    show ?thesis
      using out ih
      by (auto split: option.splits sum.splits prod.splits)
  qed
qed

subsection \<open>Corrupt collections\<close>

text \<open>
  Claim C4. If two element keys of a cached collection disagree on the declared total, or
  the number of keys differs from the total that one of them declares, reconstruction of
  the collection raises \<open>AssertionError\<close> and leaves the world as it found it: no
  element has been loaded and no partial collection is returned. The same holds of
  \<open>load_outputs\<close> when the collection is the first declared output, and wherever the
  collection stands among the declared outputs the reconstruction returns no result.
\<close>

theorem corrupt_collection_fails:
  assumes "(\<exists>a\<in>set (map fst cc). \<exists>b\<in>set (map fst cc). total a \<noteq> total b) \<or>
           (\<exists>a\<in>set (map fst cc). int (length cc) \<noteq> total a)"
  shows "load_collection_output self (ElemDict cc) w = (Inl AssertionError, w) \<and>
         (map_of co name = Some (ElemDict cc) \<longrightarrow>
            load_outputs self co ((name, True) # rest) acc w = (Inl AssertionError, w)) \<and>
         (map_of co name = Some (ElemDict cc) \<and> (name, True) \<in> set outs \<longrightarrow>
            (\<forall>res. fst (load_outputs self co outs acc w) \<noteq> Inr res))"
proof -
  have v: "validate_collection (map fst cc) = Inl AssertionError"
    using assms validate_collection_corrupt [of "map fst cc"] by simp
  then have a: "load_collection_output self (ElemDict cc) w = (Inl AssertionError, w)"
    by (simp add: load_collection_output_def)
  from a have b: "map_of co name = Some (ElemDict cc) \<longrightarrow>
      load_outputs self co ((name, True) # rest) acc w = (Inl AssertionError, w)"
    by simp
  from v have c: "map_of co name = Some (ElemDict cc) \<and> (name, True) \<in> set outs \<longrightarrow>
      (\<forall>res. fst (load_outputs self co outs acc w) \<noteq> Inr res)"
    using load_outputs_corrupt by blast
  from a b c show ?thesis by blast
qed

theorem corrupt_collection_fails_witness:
  "(\<exists>a\<in>set (map fst four_of_five). int (length four_of_five) \<noteq> total a) \<and>
   load_collection_output ctx0 (ElemDict four_of_five) world0 = (Inl AssertionError, world0) \<and>
   load_outputs ctx0 [(''out'', ElemDict four_of_five)] [(''out'', True)] [] world0
     = (Inl AssertionError, world0)"
proof -
  have h: "\<exists>a\<in>set (map fst four_of_five). int (length four_of_five) \<noteq> total a"
    by (simp add: four_of_five_def)
  then have "(\<exists>a\<in>set (map fst four_of_five). \<exists>b\<in>set (map fst four_of_five). total a \<noteq> total b) \<or>
      (\<exists>a\<in>set (map fst four_of_five). int (length four_of_five) \<noteq> total a)"
    by blast
  from corrupt_collection_fails [OF this, of ctx0 world0 "[(''out'', ElemDict four_of_five)]"
      "''out''" "[]" "[]" "[(''out'', True)]"] h
  show ?thesis by simp
qed

lemma validate_collection_ok_iff:
  "validate_collection order = Inr () \<longleftrightarrow>
     order \<noteq> [] \<and> (\<forall>e\<in>set order. total e = int (length order))"
proof (cases order)
  case Nil
  then show ?thesis by (simp add: validate_collection_def)
next
  case (Cons first rest)
  then show ?thesis
    by (auto simp: validate_collection_def list_all_iff)
qed

lemma load_collection_ok:
  assumes "named_pool (cache_store w (cache self)) = Some np"
      and "\<forall>e\<in>set order. map_of cc e = Some (hdl e) \<and> load np (Ref (hdl e)) = Inr (val e)"
  shows "load_collection self cc order acc w =
           (Inr (fold (\<lambda>e a. AList.update (item_name e) (val e) a) order acc),
            w\<lparr>events := events w @ map (\<lambda>e. PoolLoad (cache self) (Ref (hdl e))) order\<rparr>)"
  using assms
proof (induction order arbitrary: acc w)
  case Nil
  then show ?case by simp
next
  case (Cons e rest)
  let ?w1 = "log (PoolLoad (cache self) (Ref (hdl e))) w"
  have 1: "named_pool_load self (Ref (hdl e)) w = (Inr (val e), ?w1)"
    using Cons.prems by (simp add: named_pool_load_def)
  have 2: "named_pool (cache_store ?w1 (cache self)) = Some np"
    using Cons.prems by simp
  have 3: "\<forall>e\<in>set rest. map_of cc e = Some (hdl e) \<and> load np (Ref (hdl e)) = Inr (val e)"
    using Cons.prems by simp
  have m: "map_of cc e = Some (hdl e)" using Cons.prems by simp
  show ?case
    using Cons.IH [OF 2 3] 1 m by (simp add: log_def)
qed

subsection \<open>The order of a reconstructed collection\<close>

text \<open>
  Claim C5. For a cached collection that passes validation, reconstruction loads the
  elements in the order of the keys sorted by position: that order is ascending in
  \<open>idx\<close> and a permutation of the keys. When every element loads, the result is the
  dict built by inserting each item name with its value in that order, starting from the
  empty dict, and the loads are logged in that order. When the positions are pairwise
  distinct, the same record iterated in any other order gives the same result.
\<close>

theorem collection_loaded_in_position_order:
  assumes "validate_collection (map fst cc) = Inr ()"
  shows "load_collection_output self (ElemDict cc) w
           = load_collection self cc (sort_key idx (map fst cc)) [] w \<and>
         sorted (map idx (sort_key idx (map fst cc))) \<and>
         mset (sort_key idx (map fst cc)) = mset (map fst cc) \<and>
         (named_pool (cache_store w (cache self)) = Some np \<and>
          (\<forall>e\<in>set (map fst cc). map_of cc e = Some (hdl e) \<and> load np (Ref (hdl e)) = Inr (val e))
          \<longrightarrow> load_collection_output self (ElemDict cc) w =
                (Inr (fold (\<lambda>e a. AList.update (item_name e) (val e) a)
                        (sort_key idx (map fst cc)) []),
                 w\<lparr>events := events w @
                     map (\<lambda>e. PoolLoad (cache self) (Ref (hdl e))) (sort_key idx (map fst cc))\<rparr>)) \<and>
         (mset cc' = mset cc \<and> distinct (map (idx \<circ> fst) cc)
          \<longrightarrow> load_collection_output self (ElemDict cc') w
                = load_collection_output self (ElemDict cc) w)"
proof -
  have a: "load_collection_output self (ElemDict cc) w
             = load_collection self cc (sort_key idx (map fst cc)) [] w"
    using assms by (simp add: load_collection_output_def)
  have b: "sorted (map idx (sort_key idx (map fst cc)))" by simp
  have c: "mset (sort_key idx (map fst cc)) = mset (map fst cc)" by simp
  have d: "named_pool (cache_store w (cache self)) = Some np \<and>
      (\<forall>e\<in>set (map fst cc). map_of cc e = Some (hdl e) \<and> load np (Ref (hdl e)) = Inr (val e))
      \<longrightarrow> load_collection_output self (ElemDict cc) w =
            (Inr (fold (\<lambda>e a. AList.update (item_name e) (val e) a)
                    (sort_key idx (map fst cc)) []),
             w\<lparr>events := events w @
                 map (\<lambda>e. PoolLoad (cache self) (Ref (hdl e))) (sort_key idx (map fst cc))\<rparr>)"
  proof
    assume h: "named_pool (cache_store w (cache self)) = Some np \<and>
      (\<forall>e\<in>set (map fst cc). map_of cc e = Some (hdl e) \<and> load np (Ref (hdl e)) = Inr (val e))"
    then have h2: "\<forall>e\<in>set (sort_key idx (map fst cc)).
        map_of cc e = Some (hdl e) \<and> load np (Ref (hdl e)) = Inr (val e)"
      by simp
    from h have h1: "named_pool (cache_store w (cache self)) = Some np" by simp
    show "load_collection_output self (ElemDict cc) w =
            (Inr (fold (\<lambda>e a. AList.update (item_name e) (val e) a)
                    (sort_key idx (map fst cc)) []),
             w\<lparr>events := events w @
                 map (\<lambda>e. PoolLoad (cache self) (Ref (hdl e))) (sort_key idx (map fst cc))\<rparr>)"
      unfolding a by (rule load_collection_ok [OF h1 h2])
  qed
  have e: "mset cc' = mset cc \<and> distinct (map (idx \<circ> fst) cc)
      \<longrightarrow> load_collection_output self (ElemDict cc') w
            = load_collection_output self (ElemDict cc) w"
  proof
    assume h: "mset cc' = mset cc \<and> distinct (map (idx \<circ> fst) cc)"
    then have ms: "mset cc' = mset cc" by simp
    from h have dc: "distinct cc" and io: "inj_on (idx \<circ> fst) (set cc)"
      by (simp_all add: distinct_map)
    from ms have mk: "mset (map fst cc') = mset (map fst cc)"
      by (metis mset_map)
    have dk: "distinct (map fst cc)"
      using dc inj_on_imageI2 [OF io] by (simp add: distinct_map)
    have inj: "inj_on idx (set (map fst cc))"
      using inj_on_imageI [OF io] by simp
    from mk dk have dk': "distinct (map fst cc')"
      by (metis mset_eq_imp_distinct_iff)
    from ms have "set cc' = set cc" by (rule mset_eq_setD)
    with dk dk' have mo: "map_of cc' = map_of cc"
      by (simp add: map_of_inject_set)
    from mk have len: "length (map fst cc') = length (map fst cc)"
      by (rule mset_eq_length)
    from mk have st: "set (map fst cc') = set (map fst cc)"
      by (rule mset_eq_setD)
    have v': "validate_collection (map fst cc') = Inr ()"
      using assms len st unfolding validate_collection_ok_iff
      by (metis length_0_conv)
    have so: "sort_key idx (map fst cc') = sort_key idx (map fst cc)"
    proof -
      have "mset (map fst cc') = mset (sort_key idx (map fst cc))" using mk by simp
      moreover have "inj_on idx (set (map fst cc'))" using inj st by simp
      moreover have "sorted (map idx (sort_key idx (map fst cc)))" by simp
      ultimately show ?thesis by (rule sort_key_inj_key_eq)
    qed
    have lc: "\<And>order acc w. load_collection self cc' order acc w
                = load_collection self cc order acc w"
    proof -
      fix order acc w
      show "load_collection self cc' order acc w = load_collection self cc order acc w"
        by (induction order arbitrary: acc w)
          (simp_all add: mo split: option.splits sum.splits prod.splits)
    qed
    show "load_collection_output self (ElemDict cc') w
            = load_collection_output self (ElemDict cc) w"
      using assms v' so lc by (simp add: load_collection_output_def)
  qed
  from a b c d e show ?thesis by blast
qed

lemma five_sorted:
  "sort_key idx (map fst five_shuffled) =
     [\<lparr>item_name = ''a'', idx = 0, total = 5\<rparr>, \<lparr>item_name = ''b'', idx = 1, total = 5\<rparr>,
      \<lparr>item_name = ''c'', idx = 2, total = 5\<rparr>, \<lparr>item_name = ''d'', idx = 3, total = 5\<rparr>,
      \<lparr>item_name = ''e'', idx = 4, total = 5\<rparr>]"
  by (simp add: five_shuffled_def)

theorem collection_loaded_in_position_order_witness:
  "validate_collection (map fst five_shuffled) = Inr () \<and>
   load_collection_output ctx0 (ElemDict five_shuffled) world0 =
     (Inr [(''a'', ''r0''), (''b'', ''r1''), (''c'', ''r2''), (''d'', ''r3''), (''e'', ''r4'')],
      world0\<lparr>events := [PoolLoad 0 (Ref ''u0''), PoolLoad 0 (Ref ''u1''), PoolLoad 0 (Ref ''u2''),
                        PoolLoad 0 (Ref ''u3''), PoolLoad 0 (Ref ''u4'')]\<rparr>) \<and>
   load_collection_output ctx0 (ElemDict (rev five_shuffled)) world0 =
     load_collection_output ctx0 (ElemDict five_shuffled) world0"
proof -
  have v: "validate_collection (map fst five_shuffled) = Inr ()"
    by (simp add: validate_collection_def five_shuffled_def)
  have np: "named_pool (cache_store world0 (cache ctx0)) = Some pool0"
    by (simp add: world0_def)
  let ?hdl = "\<lambda>e. ''u'' @ (if idx e = 0 then ''0'' else if idx e = 1 then ''1''
      else if idx e = 2 then ''2'' else if idx e = 3 then ''3'' else ''4'')"
  let ?val = "\<lambda>e. ''r'' @ (if idx e = 0 then ''0'' else if idx e = 1 then ''1''
      else if idx e = 2 then ''2'' else if idx e = 3 then ''3'' else ''4'')"
  have ok: "\<forall>e\<in>set (map fst five_shuffled).
      map_of five_shuffled e = Some (?hdl e) \<and> load pool0 (Ref (?hdl e)) = Inr (?val e)"
    by (simp add: five_shuffled_def pool0_def)
  have ms: "mset (rev five_shuffled) = mset five_shuffled" by simp
  have di: "distinct (map (idx \<circ> fst) five_shuffled)"
    by (simp add: five_shuffled_def)
  note t = collection_loaded_in_position_order
    [OF v, of ctx0 world0 pool0 ?hdl ?val "rev five_shuffled"]
  from t np ok have
    "load_collection_output ctx0 (ElemDict five_shuffled) world0 =
       (Inr (fold (\<lambda>e a. AList.update (item_name e) (?val e) a)
               (sort_key idx (map fst five_shuffled)) []),
        world0\<lparr>events := events world0 @
            map (\<lambda>e. PoolLoad (cache ctx0) (Ref (?hdl e)))
              (sort_key idx (map fst five_shuffled))\<rparr>)"
    by blast
  then have r: "load_collection_output ctx0 (ElemDict five_shuffled) world0 =
     (Inr [(''a'', ''r0''), (''b'', ''r1''), (''c'', ''r2''), (''d'', ''r3''), (''e'', ''r4'')],
      world0\<lparr>events := [PoolLoad 0 (Ref ''u0''), PoolLoad 0 (Ref ''u1''), PoolLoad 0 (Ref ''u2''),
                        PoolLoad 0 (Ref ''u3''), PoolLoad 0 (Ref ''u4'')]\<rparr>)"
    unfolding five_sorted by (simp add: world0_def ctx0_def)
  from t ms di have p: "load_collection_output ctx0 (ElemDict (rev five_shuffled)) world0 =
     load_collection_output ctx0 (ElemDict five_shuffled) world0"
    by blast
  from v r p show ?thesis by blast
qed

lemma Context_init_child:
  "Context_init env (Some p) par w =
     (Context (action_executor_mapping p) (executor_name_type_mapping p)
        (parallel p) (cache p) (Some p), w)"
  by (simp add: Context_init_def)

lemma in_tree_shares:
  "in_tree env root c \<Longrightarrow>
     cache c = cache root \<and> parallel c = parallel root \<and>
     action_executor_mapping c = action_executor_mapping root \<and>
     executor_name_type_mapping c = executor_name_type_mapping root"
  by (induction rule: in_tree.induct) (simp_all add: Context_init_child)

subsection \<open>Context trees\<close>

text \<open>
  Claim C6. A context constructed with a parent has the parent's cache, parallel flag and
  both mappings, its parent field is the parent, and the \<open>parallel\<close> argument of the
  constructor has no effect. Any two contexts of the tree under a root therefore have the
  same cache, flag and mappings, which are those of the root.
\<close>

theorem child_inherits_parent:
  "(let c = fst (Context_init env (Some p) par w) in
      cache c = cache p \<and> parallel c = parallel p \<and>
      action_executor_mapping c = action_executor_mapping p \<and>
      executor_name_type_mapping c = executor_name_type_mapping p \<and>
      parent c = Some p) \<and>
   Context_init env (Some p) par w = Context_init env (Some p) par' w \<and>
   (in_tree env root c1 \<and> in_tree env root c2 \<longrightarrow>
      cache c1 = cache c2 \<and> parallel c1 = parallel c2 \<and>
      action_executor_mapping c1 = action_executor_mapping c2 \<and>
      executor_name_type_mapping c1 = executor_name_type_mapping c2 \<and>
      cache c1 = cache root \<and> parallel c1 = parallel root)"
  using in_tree_shares [of env root c1] in_tree_shares [of env root c2]
  by (simp add: Context_init_child Let_def)

theorem child_inherits_parent_witness:
  "in_tree env0 (Context [] None True 7 None) (Context [] None True 7 None) \<and>
   in_tree env0 (Context [] None True 7 None)
     (fst (Context_init env0 (Some (Context [] None True 7 None)) False world0)) \<and>
   cache (fst (Context_init env0 (Some (Context [] None True 7 None)) False world0)) = 7 \<and>
   parallel (fst (Context_init env0 (Some (Context [] None True 7 None)) False world0))"
proof -
  let ?r = "Context [] None True 7 None"
  let ?c = "fst (Context_init env0 (Some ?r) False world0)"
  have a: "in_tree env0 ?r ?r" by (rule in_tree_root)
  then have b: "in_tree env0 ?r ?c" by (rule in_tree_child)
  from child_inherits_parent [of env0 ?r False world0 False ?r ?c ?r] a b
  have "cache ?c = cache ?r \<and> parallel ?c = parallel ?r" by blast
  with a b show ?thesis by simp
qed

subsection \<open>Building the index\<close>

text \<open>
  Claim C7. Constructing a child context leaves the world unchanged, so it never builds an
  index. Constructing a root context takes the lock and releases it, and between the two
  calls \<open>create_index\<close> on the named pool exactly when the cache has one. If
  \<open>create_index\<close> is idempotent on that pool, constructing a second root context leaves
  every cache as the first construction left it.
\<close>

theorem index_built_by_root_only:
  "snd (Context_init env (Some p) par w) = w \<and>
   (named_pool (cache_store w (get_cache env)) = None \<longrightarrow>
      snd (Context_init env None par w) =
        w\<lparr>events := events w @ [LockEnter (get_cache env), LockExit (get_cache env)]\<rparr>) \<and>
   (named_pool (cache_store w (get_cache env)) = Some np \<longrightarrow>
      snd (Context_init env None par w) =
        w\<lparr>cache_store := (cache_store w)
             (get_cache env := (cache_store w (get_cache env))
                \<lparr>named_pool := Some (create_index env np)\<rparr>),
          events := events w @ [LockEnter (get_cache env), CreateIndex (get_cache env),
                                LockExit (get_cache env)]\<rparr>) \<and>
   (named_pool (cache_store w (get_cache env)) = Some np \<and>
    create_index env (create_index env np) = create_index env np \<longrightarrow>
      cache_store (snd (Context_init env None par' (snd (Context_init env None par w))))
        = cache_store (snd (Context_init env None par w)))"
  by (auto simp: Context_init_def Let_def log_def set_cache_def)

lemmas example_defs =
  ctx0_def pool0_def world0_def world_with_def env0_def act0_def kw0_def key0_def
  index_good_def index_corrupt_def five_shuffled_def four_of_five_def

theorem index_built_by_root_only_witness:
  "named_pool (cache_store world0 (get_cache env0)) = Some pool0 \<and>
   create_index env0 (create_index env0 pool0) = create_index env0 pool0 \<and>
   snd (Context_init env0 (Some ctx0) False world0) = world0 \<and>
   events (snd (Context_init env0 None False world0)) = [LockEnter 0, CreateIndex 0, LockExit 0] \<and>
   cache_store (snd (Context_init env0 None True (snd (Context_init env0 None False world0))))
     = cache_store (snd (Context_init env0 None False world0))"
proof -
  have a: "named_pool (cache_store world0 (get_cache env0)) = Some pool0"
    by (simp add: world0_def env0_def)
  have b: "create_index env0 (create_index env0 pool0) = create_index env0 pool0"
    by (simp add: env0_def)
  note t = index_built_by_root_only [of env0 ctx0 False world0 pool0 True]
  from t have c: "snd (Context_init env0 (Some ctx0) False world0) = world0" by blast
  from t a have "snd (Context_init env0 None False world0) =
        world0\<lparr>cache_store := (cache_store world0)
             (get_cache env0 := (cache_store world0 (get_cache env0))
                \<lparr>named_pool := Some (create_index env0 pool0)\<rparr>),
          events := events world0 @ [LockEnter (get_cache env0), CreateIndex (get_cache env0),
                                LockExit (get_cache env0)]\<rparr>"
    by blast
  then have d: "events (snd (Context_init env0 None False world0))
      = [LockEnter 0, CreateIndex 0, LockExit 0]"
    by (simp add: world0_def env0_def)
  from t a b have e:
    "cache_store (snd (Context_init env0 None True (snd (Context_init env0 None False world0))))
     = cache_store (snd (Context_init env0 None False world0))"
    by blast
  from a b c d e show ?thesis by blast
qed

lemma add_parent_reference_fst:
  "fst (add_parent_reference self r w)
     = handle_for (process_pool (cache_store w (cache self))) r"
  by (simp add: add_parent_reference_def Let_def save_def split: prod.splits)

lemma add_parent_reference_keeps:
  "(h0, r0) \<in> set (contents (process_pool (cache_store w c'))) \<Longrightarrow>
   (h0, r0) \<in> set (contents (process_pool
      (cache_store (snd (add_parent_reference self r w)) c')))"
  by (auto simp: add_parent_reference_def Let_def save_def split: prod.splits option.splits)

text \<open>
  Claim C8. \<open>add_parent_reference\<close> returns the handle the process pool gives out for
  the resource. Between taking and releasing the lock it saves the resource into the
  process pool and, exactly when the cache has a named pool, saves that handle into the
  named pool. Afterwards the pair of handle and resource is in the process pool, and it is
  still there when a later \<open>make_artifact\<close> fails in the import and when a later
  resource is registered.
\<close>

theorem add_parent_reference_registers:
  "(let c = cache self; ch = cache_store w c; h = handle_for (process_pool ch) r;
        w' = snd (add_parent_reference self r w) in
      fst (add_parent_reference self r w) = h \<and>
      (named_pool ch = None \<longrightarrow>
         w' = w\<lparr>cache_store := (cache_store w)
                   (c := ch\<lparr>process_pool := snd (save (process_pool ch) r)\<rparr>),
                events := events w @ [LockEnter c, ProcessSave c r, LockExit c]\<rparr>) \<and>
      (named_pool ch = Some np \<longrightarrow>
         w' = w\<lparr>cache_store := (cache_store w)
                   (c := ch\<lparr>process_pool := snd (save (process_pool ch) r),
                           named_pool := Some (snd (save np h))\<rparr>),
                events := events w @ [LockEnter c, ProcessSave c r, NamedSave c h, LockExit c]\<rparr>) \<and>
      (h, r) \<in> set (contents (process_pool (cache_store w' c))) \<and>
      (named_pool ch = Some np \<longrightarrow>
         (handle_for np h, h) \<in> set (contents (snd (save np h)))) \<and>
      (import_data env t v vt = Inl e \<longrightarrow>
         fst (make_artifact env self t v vt w') = Inl e \<and>
         cache_store (snd (make_artifact env self t v vt w')) = cache_store w') \<and>
      (h, r) \<in> set (contents (process_pool
         (cache_store (snd (add_parent_reference self r2 w')) c))))"
proof -
  let ?c = "cache self"
  let ?ch = "cache_store w ?c"
  let ?h = "handle_for (process_pool ?ch) r"
  let ?w' = "snd (add_parent_reference self r w)"
  have a: "fst (add_parent_reference self r w) = ?h"
    by (rule add_parent_reference_fst)
  have b: "named_pool ?ch = None \<longrightarrow>
         ?w' = w\<lparr>cache_store := (cache_store w)
                   (?c := ?ch\<lparr>process_pool := snd (save (process_pool ?ch) r)\<rparr>),
                events := events w @ [LockEnter ?c, ProcessSave ?c r, LockExit ?c]\<rparr>"
    by (simp add: add_parent_reference_def Let_def save_def log_def set_cache_def)
  have c: "named_pool ?ch = Some np \<longrightarrow>
         ?w' = w\<lparr>cache_store := (cache_store w)
                   (?c := ?ch\<lparr>process_pool := snd (save (process_pool ?ch) r),
                           named_pool := Some (snd (save np ?h))\<rparr>),
                events := events w @ [LockEnter ?c, ProcessSave ?c r, NamedSave ?c ?h, LockExit ?c]\<rparr>"
    by (simp add: add_parent_reference_def Let_def save_def log_def set_cache_def)
  have d: "(?h, r) \<in> set (contents (process_pool (cache_store ?w' ?c)))"
    by (auto simp: add_parent_reference_def Let_def save_def split: option.splits)
  have e: "named_pool ?ch = Some np \<longrightarrow>
         (handle_for np ?h, ?h) \<in> set (contents (snd (save np ?h)))"
    by (simp add: save_def)
  have f: "import_data env t v vt = Inl e \<longrightarrow>
         fst (make_artifact env self t v vt ?w') = Inl e \<and>
         cache_store (snd (make_artifact env self t v vt ?w')) = cache_store ?w'"
    by (simp add: make_artifact_def Let_def)
  have g: "(?h, r) \<in> set (contents (process_pool
         (cache_store (snd (add_parent_reference self r2 ?w')) ?c)))"
    using d by (rule add_parent_reference_keeps)
  from a b c d e f g show ?thesis by (simp add: Let_def)
qed

theorem add_parent_reference_registers_witness:
  "named_pool (cache_store world0 (cache ctx0)) = Some pool0 \<and>
   add_parent_reference ctx0 ''res'' world0 =
     (''proc/res'',
      world0\<lparr>cache_store := (cache_store world0)
                (0 := \<lparr>process_pool = \<lparr>contents = [(''proc/res'', ''res'')],
                                        handle_for = (\<lambda>r. ''proc/'' @ r)\<rparr>,
                       named_pool = Some (pool0\<lparr>contents := contents pool0 @
                                            [(''named/proc/res'', ''proc/res'')]\<rparr>)\<rparr>),
              events := [LockEnter 0, ProcessSave 0 ''res'', NamedSave 0 ''proc/res'',
                         LockExit 0]\<rparr>)"
proof -
  have np: "named_pool (cache_store world0 (cache ctx0)) = Some pool0"
    by (simp add: world0_def)
  note t = add_parent_reference_registers [of ctx0 world0 "''res''" pool0 env0
      "''t''" "''v''" None "OtherError ''x''" "''res2''"]
  from t have 1: "fst (add_parent_reference ctx0 ''res'' world0)
      = handle_for (process_pool (cache_store world0 (cache ctx0))) ''res''"
    by (simp add: Let_def)
  from t np have 2: "snd (add_parent_reference ctx0 ''res'' world0) =
      world0\<lparr>cache_store := (cache_store world0)
         (cache ctx0 := (cache_store world0 (cache ctx0))
            \<lparr>process_pool := snd (save (process_pool (cache_store world0 (cache ctx0))) ''res''),
             named_pool := Some (snd (save pool0
                (handle_for (process_pool (cache_store world0 (cache ctx0))) ''res'')))\<rparr>),
         events := events world0 @ [LockEnter (cache ctx0), ProcessSave (cache ctx0) ''res'',
            NamedSave (cache ctx0)
              (handle_for (process_pool (cache_store world0 (cache ctx0))) ''res''),
            LockExit (cache ctx0)]\<rparr>"
    by (simp add: Let_def)
  have "add_parent_reference ctx0 ''res'' world0 =
      (fst (add_parent_reference ctx0 ''res'' world0),
       snd (add_parent_reference ctx0 ''res'' world0))"
    by simp
  also have "\<dots> = (''proc/res'',
      world0\<lparr>cache_store := (cache_store world0)
                (0 := \<lparr>process_pool = \<lparr>contents = [(''proc/res'', ''res'')],
                                        handle_for = (\<lambda>r. ''proc/'' @ r)\<rparr>,
                       named_pool = Some (pool0\<lparr>contents := contents pool0 @
                                            [(''named/proc/res'', ''proc/res'')]\<rparr>)\<rparr>),
              events := [LockEnter 0, ProcessSave 0 ''res'', NamedSave 0 ''proc/res'',
                         LockExit 0]\<rparr>)"
    unfolding 1 2 by (simp add: world0_def ctx0_def save_def pool0_def)
  finally show ?thesis using np by simp
qed

lemma replace_underscores_idem:
  "replace_underscores (replace_underscores s) = replace_underscores s"
  by (induction s) (simp_all add: replace_underscores_def)

lemma replace_underscores_none: "CHR ''_'' \<notin> set (replace_underscores s)"
  by (induction s) (simp_all add: replace_underscores_def)

text \<open>
  Claim C9. \<open>get_action\<close> gives the same outcome for a plugin name and for that name
  with every underscore replaced by a hyphen. The replaced name holds no underscore; it is
  the name looked up among the plugins and the name in both errors; and the qualified name
  of the handle, which is the one in the key probed in the index, is the replaced name, a
  colon and the action name.
\<close>

theorem get_action_underscore_hyphen:
  "get_action env self p a = get_action env self (replace_underscores p) a \<and>
   CHR ''_'' \<notin> set (replace_underscores p) \<and>
   (map_of (plugins env) (replace_underscores p) = None \<longrightarrow>
      get_action env self p a = Inl (ValueError_plugin (replace_underscores p))) \<and>
   (\<forall>plugin_obj. map_of (plugins env) (replace_underscores p) = Some plugin_obj \<and>
      map_of (actions plugin_obj) a = None \<longrightarrow>
      get_action env self p a = Inl (ValueError_action a (replace_underscores p))) \<and>
   (\<forall>h. get_action env self p a = Inr h \<longrightarrow>
      h_plugin_action h = replace_underscores p @ '':'' @ a \<and> h_self h = self \<and>
      (\<forall>np ci ca args0 kw w.
         named_pool (cache_store w (cache self)) = Some np \<and>
         \<not> contains_proxies (drop 1 args0) kw \<and>
         collate_inputs (h_action_obj h) (drop 1 args0) kw = Inr ci \<and>
         coerce_user_input (h_action_obj h) ci = Inr ca \<longrightarrow>
         IndexProbe (cache self)
           (HashableInvocation (replace_underscores p @ '':'' @ a)
              (map (\<lambda>(k, v). [(k, v)]) ca))
         \<in> set (events (snd (cache_probe self (h_plugin_action h) (h_action_obj h)
                              (drop 1 args0) kw (log (LockEnter (cache self)) w))))))"
proof -
  have a: "get_action env self p a = get_action env self (replace_underscores p) a"
    by (simp add: get_action_def replace_underscores_idem)
  have b: "CHR ''_'' \<notin> set (replace_underscores p)"
    by (rule replace_underscores_none)
  have c: "map_of (plugins env) (replace_underscores p) = None \<longrightarrow>
      get_action env self p a = Inl (ValueError_plugin (replace_underscores p))"
    by (simp add: get_action_def)
  have d: "\<forall>plugin_obj. map_of (plugins env) (replace_underscores p) = Some plugin_obj \<and>
      map_of (actions plugin_obj) a = None \<longrightarrow>
      get_action env self p a = Inl (ValueError_action a (replace_underscores p))"
    by (simp add: get_action_def)
  have e: "\<forall>h. get_action env self p a = Inr h \<longrightarrow>
      h_plugin_action h = replace_underscores p @ '':'' @ a \<and> h_self h = self \<and>
      (\<forall>np ci ca args0 kw w.
         named_pool (cache_store w (cache self)) = Some np \<and>
         \<not> contains_proxies (drop 1 args0) kw \<and>
         collate_inputs (h_action_obj h) (drop 1 args0) kw = Inr ci \<and>
         coerce_user_input (h_action_obj h) ci = Inr ca \<longrightarrow>
         IndexProbe (cache self)
           (HashableInvocation (replace_underscores p @ '':'' @ a)
              (map (\<lambda>(k, v). [(k, v)]) ca))
         \<in> set (events (snd (cache_probe self (h_plugin_action h) (h_action_obj h)
                              (drop 1 args0) kw (log (LockEnter (cache self)) w)))))"
  proof (intro allI impI)
    fix h
    assume g: "get_action env self p a = Inr h"
    then have pa: "h_plugin_action h = replace_underscores p @ '':'' @ a" and hs: "h_self h = self"
      by (auto simp: get_action_def Let_def split: option.splits)
    have pr: "\<forall>np ci ca args0 kw w.
         named_pool (cache_store w (cache self)) = Some np \<and>
         \<not> contains_proxies (drop 1 args0) kw \<and>
         collate_inputs (h_action_obj h) (drop 1 args0) kw = Inr ci \<and>
         coerce_user_input (h_action_obj h) ci = Inr ca \<longrightarrow>
         IndexProbe (cache self)
           (HashableInvocation (replace_underscores p @ '':'' @ a)
              (map (\<lambda>(k, v). [(k, v)]) ca))
         \<in> set (events (snd (cache_probe self (h_plugin_action h) (h_action_obj h)
                              (drop 1 args0) kw (log (LockEnter (cache self)) w))))"
    proof (intro allI impI)
      fix np :: named_pool and ci ca :: kwargs and args0 :: "pyval list" and kw :: kwargs
        and w :: world
      assume hy: "named_pool (cache_store w (cache self)) = Some np \<and>
         \<not> contains_proxies (drop 1 args0) kw \<and>
         collate_inputs (h_action_obj h) (drop 1 args0) kw = Inr ci \<and>
         coerce_user_input (h_action_obj h) ci = Inr ca"
      let ?key = "HashableInvocation (replace_underscores p @ '':'' @ a)
              (map (\<lambda>(k, v). [(k, v)]) ca)"
      let ?w0 = "log (LockEnter (cache self)) w"
      let ?w1 = "log (IndexProbe (cache self) ?key) (log CoerceUserInput (log CollateInputs ?w0))"
      have in1: "IndexProbe (cache self) ?key \<in> set (events ?w1)" by simp
      have mono: "\<And>w2 res. load_cache self (h_action_obj h) ?key ?w1 = (res, w2) \<Longrightarrow>
          IndexProbe (cache self) ?key \<in> set (events w2)"
      proof -
        fix w2 res
        assume "load_cache self (h_action_obj h) ?key ?w1 = (res, w2)"
        then have "reads_only ?w1 w2" by (rule load_cache_reads)
        then have "take (length (events ?w1)) (events w2) = events ?w1"
          by (simp add: reads_only_def)
        then have "set (events ?w1) \<subseteq> set (events w2)"
          by (metis set_take_subset)
        with in1 show "IndexProbe (cache self) ?key \<in> set (events w2)" by blast
      qed
      obtain res w2 where lc: "load_cache self (h_action_obj h) ?key ?w1 = (res, w2)"
        by (cases "load_cache self (h_action_obj h) ?key ?w1")
      from mono [OF lc] have in2: "IndexProbe (cache self) ?key \<in> set (events w2)" .
      show "IndexProbe (cache self) ?key
         \<in> set (events (snd (cache_probe self (h_plugin_action h) (h_action_obj h)
                              (drop 1 args0) kw ?w0)))"
        using hy pa lc in1 in2
        by (cases res) (simp_all add: cache_probe_def invocation_of_def Let_def)
    qed
    from pa hs pr show "h_plugin_action h = replace_underscores p @ '':'' @ a \<and> h_self h = self \<and>
      (\<forall>np ci ca args0 kw w.
         named_pool (cache_store w (cache self)) = Some np \<and>
         \<not> contains_proxies (drop 1 args0) kw \<and>
         collate_inputs (h_action_obj h) (drop 1 args0) kw = Inr ci \<and>
         coerce_user_input (h_action_obj h) ci = Inr ca \<longrightarrow>
         IndexProbe (cache self)
           (HashableInvocation (replace_underscores p @ '':'' @ a)
              (map (\<lambda>(k, v). [(k, v)]) ca))
         \<in> set (events (snd (cache_probe self (h_plugin_action h) (h_action_obj h)
                              (drop 1 args0) kw (log (LockEnter (cache self)) w)))))"
      by blast
  qed
  from a b c d e show ?thesis by blast
qed

theorem get_action_underscore_hyphen_witness:
  "get_action env1 ctx0 ''feature_table'' ''filter_samples'' =
     Inr \<lparr>h_self = ctx0, h_plugin_action = ''feature-table:filter_samples'',
          h_action_obj = act0\<rparr> \<and>
   get_action env1 ctx0 ''feature-table'' ''filter_samples'' =
     get_action env1 ctx0 ''feature_table'' ''filter_samples'' \<and>
   get_action env1 ctx0 ''no_such'' ''x'' = Inl (ValueError_plugin ''no-such'') \<and>
   get_action env1 ctx0 ''feature_table'' ''x'' = Inl (ValueError_action ''x'' ''feature-table'')"
proof -
  note t1 = get_action_underscore_hyphen [of env1 ctx0 "''feature_table''" "''filter_samples''"]
  have r: "replace_underscores ''feature_table'' = ''feature-table''"
    by (simp add: replace_underscores_def)
  have g: "get_action env1 ctx0 ''feature-table'' ''filter_samples'' =
     Inr \<lparr>h_self = ctx0, h_plugin_action = ''feature-table:filter_samples'',
          h_action_obj = act0\<rparr>"
    by (simp add: get_action_def env1_def replace_underscores_def)
  from t1 r have e: "get_action env1 ctx0 ''feature_table'' ''filter_samples''
      = get_action env1 ctx0 ''feature-table'' ''filter_samples''"
    by simp
  have n: "get_action env1 ctx0 ''no_such'' ''x'' = Inl (ValueError_plugin ''no-such'')"
    by (simp add: get_action_def env1_def replace_underscores_def)
  have m: "get_action env1 ctx0 ''feature_table'' ''x''
      = Inl (ValueError_action ''x'' ''feature-table'')"
    by (simp add: get_action_def env1_def replace_underscores_def)
  from g e n m show ?thesis by simp
qed

text \<open>
  Claim C10. When the import succeeds, \<open>make_artifact\<close> returns the imported artifact
  and not the handle that \<open>add_parent_reference\<close> returns for it; the world it leaves
  is the one the registration leaves, with the artifact in the process pool under that
  handle. When the import fails, the error is returned and nothing is registered.
\<close>

theorem make_artifact_returns_the_artifact:
  "(import_data env t v vt = Inr a \<longrightarrow>
      fst (make_artifact env self t v vt w) = Inr a \<and>
      snd (make_artifact env self t v vt w)
        = snd (add_parent_reference self a (log (ImportData t v vt) w)) \<and>
      fst (add_parent_reference self a (log (ImportData t v vt) w))
        = handle_for (process_pool (cache_store w (cache self))) a \<and>
      (handle_for (process_pool (cache_store w (cache self))) a, a)
        \<in> set (contents (process_pool
             (cache_store (snd (make_artifact env self t v vt w)) (cache self))))) \<and>
   (import_data env t v vt = Inl e \<longrightarrow>
      make_artifact env self t v vt w = (Inl e, log (ImportData t v vt) w))"
proof -
  have 1: "fst (add_parent_reference self a (log (ImportData t v vt) w))
        = handle_for (process_pool (cache_store w (cache self))) a"
    by (simp add: add_parent_reference_fst)
  have 2: "(handle_for (process_pool (cache_store w (cache self))) a, a)
        \<in> set (contents (process_pool
             (cache_store (snd (add_parent_reference self a (log (ImportData t v vt) w)))
                (cache self))))"
    by (auto simp: add_parent_reference_def Let_def save_def split: option.splits)
  from 1 2 show ?thesis
    by (simp add: make_artifact_def Let_def)
qed

theorem make_artifact_returns_the_artifact_witness:
  "import_data env0 ''T'' ''v'' None = Inr ''artifact-v'' \<and>
   fst (make_artifact env0 ctx0 ''T'' ''v'' None world0) = Inr ''artifact-v'' \<and>
   fst (add_parent_reference ctx0 ''artifact-v'' (log (ImportData ''T'' ''v'' None) world0))
     = ''proc/artifact-v'' \<and>
   (''proc/artifact-v'', ''artifact-v'')
     \<in> set (contents (process_pool
          (cache_store (snd (make_artifact env0 ctx0 ''T'' ''v'' None world0)) 0)))"
proof -
  have i: "import_data env0 ''T'' ''v'' None = Inr ''artifact-v''"
    by (simp add: env0_def)
  have hc: "handle_for (process_pool (cache_store world0 (cache ctx0))) ''artifact-v''
      = ''proc/artifact-v''"
    by (simp add: world0_def)
  have c: "cache ctx0 = 0" by (simp add: ctx0_def)
  note t = make_artifact_returns_the_artifact
    [of env0 "''T''" "''v''" None "''artifact-v''" ctx0 world0 "OtherError ''x''"]
  from t i have 1: "fst (make_artifact env0 ctx0 ''T'' ''v'' None world0) = Inr ''artifact-v''"
    by blast
  from t i have 3:
    "fst (add_parent_reference ctx0 ''artifact-v'' (log (ImportData ''T'' ''v'' None) world0))
       = handle_for (process_pool (cache_store world0 (cache ctx0))) ''artifact-v''"
    by blast
  from t i have 4:
    "(handle_for (process_pool (cache_store world0 (cache ctx0))) ''artifact-v'', ''artifact-v'')
       \<in> set (contents (process_pool
            (cache_store (snd (make_artifact env0 ctx0 ''T'' ''v'' None world0)) (cache ctx0))))"
    by blast
  from 3 have h3: "fst (add_parent_reference ctx0 ''artifact-v''
      (log (ImportData ''T'' ''v'' None) world0)) = ''proc/artifact-v''"
    unfolding hc .
  from 4 have "(''proc/artifact-v'', ''artifact-v'')
       \<in> set (contents (process_pool
            (cache_store (snd (make_artifact env0 ctx0 ''T'' ''v'' None world0)) (cache ctx0))))"
    unfolding hc .
  then have h4: "(''proc/artifact-v'', ''artifact-v'')
       \<in> set (contents (process_pool
            (cache_store (snd (make_artifact env0 ctx0 ''T'' ''v'' None world0)) 0)))"
    unfolding c .
  from i 1 h3 h4 show ?thesis by blast
qed

lemma deferred_action_probe:
  "deferred_action env self pa act args0 kw w =
     (case cache_probe self pa act (drop 1 args0) kw (log (LockEnter (cache self)) w) of
        (Return r, w') \<Rightarrow> (Inr r, log (LockExit (cache self)) w')
      | (Raise e, w') \<Rightarrow> (Inl e, log (LockExit (cache self)) w')
      | (FallThrough, w') \<Rightarrow>
          execute env self act (drop 1 args0) kw (log (LockExit (cache self)) w'))"
  by (simp only: deferred_action_def Let_def)

lemma cache_probe_eval:
  assumes "named_pool (cache_store w (cache self)) = Some np"
      and "\<not> contains_proxies args kw"
      and "collate_inputs act args kw = Inr ci"
      and "coerce_user_input act ci = Inr ca"
  shows "cache_probe self pa act args kw (log (LockEnter (cache self)) w) =
     (if map_of (index np) (invocation_of pa ca) = None
      then (FallThrough,
            w\<lparr>events := events w @ [LockEnter (cache self), CollateInputs, CoerceUserInput,
                                    IndexProbe (cache self) (invocation_of pa ca)]\<rparr>)
      else (case load_cache self act (invocation_of pa ca)
                  (w\<lparr>events := events w @ [LockEnter (cache self), CollateInputs,
                        CoerceUserInput, IndexProbe (cache self) (invocation_of pa ca)]\<rparr>) of
              (Inr r, w2) \<Rightarrow> (Return r, w2)
            | (Inl e, w2) \<Rightarrow> if e = KeyError then (FallThrough, w2) else (Raise e, w2)))"
  using assms by (simp add: cache_probe_def Let_def log_def)

text \<open>
  Claim C2. When one of the positional arguments that remain after the first is dropped,
  or one of the keyword arguments, is a proxy, the call takes the lock, releases it and
  executes the action. Nothing is logged between the two lock events: no key is built and
  the index is not probed, whatever the index holds.
\<close>

theorem proxy_arguments_skip_the_cache:
  "contains_proxies (drop 1 args0) kw \<Longrightarrow>
   deferred_action env self pa act args0 kw w =
     execute env self act (drop 1 args0) kw
       (w\<lparr>events := events w @ [LockEnter (cache self), LockExit (cache self)]\<rparr>)"
  by (simp add: deferred_action_def cache_probe_def Let_def log_def split: option.splits)

theorem proxy_arguments_skip_the_cache_witness:
  "contains_proxies (drop 1 [Value ''f'', Proxy ''future'']) kw0 \<and>
   map_of (index pool_good) key0 \<noteq> None \<and>
   deferred_action env0 ctx0 ''p:a'' act0 [Value ''f'', Proxy ''future''] kw0 world_good =
     (Inr (Results [(''ran'', LoadedResult ''fresh'')]),
      world_good\<lparr>events := [LockEnter 0, LockExit 0, Bind]\<rparr>)"
proof -
  have p: "contains_proxies (drop 1 [Value ''f'', Proxy ''future'']) kw0"
    by (simp add: contains_proxies_def)
  have i: "map_of (index pool_good) key0 \<noteq> None"
    by (simp add: pool_good_def index_good_def)
  have e: "execute env0 ctx0 act0 (drop 1 [Value ''f'', Proxy ''future'']) kw0
       (world_good\<lparr>events := events world_good @ [LockEnter (cache ctx0), LockExit (cache ctx0)]\<rparr>)
     = (Inr (Results [(''ran'', LoadedResult ''fresh'')]),
        world_good\<lparr>events := [LockEnter 0, LockExit 0, Bind]\<rparr>)"
    by (simp add: execute_def ctx0_def act0_def log_def world_good_def world_with_def)
  from proxy_arguments_skip_the_cache [OF p, of env0 ctx0 "''p:a''" act0 world_good] e p i
  show ?thesis by simp
qed

text \<open>
  Claim C3, as amended. With a named pool, no proxy among the arguments and the key in the
  index: when reconstruction raises \<open>KeyError\<close>, the call executes the action and the
  error is not returned; when reconstruction raises an error of another kind, the call
  returns that error and does not execute the action. An error of \<open>collate_inputs\<close> or
  of \<open>coerce_user_input\<close> is returned as it is. Without a named pool the call executes
  the action.
\<close>

theorem missing_storage_is_a_miss:
  "(let c = cache self; args = drop 1 args0; key = invocation_of pa ca;
        w1 = w\<lparr>events := events w @ [LockEnter c, CollateInputs, CoerceUserInput,
                                     IndexProbe c key]\<rparr> in
     (named_pool (cache_store w c) = Some np \<and> \<not> contains_proxies args kw \<and>
      collate_inputs act args kw = Inr ci \<and> coerce_user_input act ci = Inr ca \<and>
      map_of (index np) key \<noteq> None \<longrightarrow>
        (load_cache self act key w1 = (Inl KeyError, w2) \<longrightarrow>
           deferred_action env self pa act args0 kw w
             = execute env self act args kw (log (LockExit c) w2)) \<and>
        (e \<noteq> KeyError \<and> load_cache self act key w1 = (Inl e, w2) \<longrightarrow>
           deferred_action env self pa act args0 kw w = (Inl e, log (LockExit c) w2))) \<and>
     (named_pool (cache_store w c) = Some np \<and> \<not> contains_proxies args kw \<and>
      collate_inputs act args kw = Inl e \<longrightarrow>
        deferred_action env self pa act args0 kw w
          = (Inl e, w\<lparr>events := events w @ [LockEnter c, CollateInputs, LockExit c]\<rparr>)) \<and>
     (named_pool (cache_store w c) = Some np \<and> \<not> contains_proxies args kw \<and>
      collate_inputs act args kw = Inr ci \<and> coerce_user_input act ci = Inl e \<longrightarrow>
        deferred_action env self pa act args0 kw w
          = (Inl e, w\<lparr>events := events w @ [LockEnter c, CollateInputs, CoerceUserInput,
                                            LockExit c]\<rparr>)) \<and>
     (named_pool (cache_store w c) = None \<longrightarrow>
        deferred_action env self pa act args0 kw w
          = execute env self act args kw (w\<lparr>events := events w @ [LockEnter c, LockExit c]\<rparr>)))"
proof -
  let ?c = "cache self"
  let ?args = "drop 1 args0"
  let ?key = "invocation_of pa ca"
  let ?w1 = "w\<lparr>events := events w @ [LockEnter ?c, CollateInputs, CoerceUserInput,
                                     IndexProbe ?c ?key]\<rparr>"
  have a: "named_pool (cache_store w ?c) = Some np \<and> \<not> contains_proxies ?args kw \<and>
      collate_inputs act ?args kw = Inr ci \<and> coerce_user_input act ci = Inr ca \<and>
      map_of (index np) ?key \<noteq> None \<longrightarrow>
        (load_cache self act ?key ?w1 = (Inl KeyError, w2) \<longrightarrow>
           deferred_action env self pa act args0 kw w
             = execute env self act ?args kw (log (LockExit ?c) w2)) \<and>
        (e \<noteq> KeyError \<and> load_cache self act ?key ?w1 = (Inl e, w2) \<longrightarrow>
           deferred_action env self pa act args0 kw w = (Inl e, log (LockExit ?c) w2))"
    by (simp add: deferred_action_probe cache_probe_eval)
  have b: "named_pool (cache_store w ?c) = Some np \<and> \<not> contains_proxies ?args kw \<and>
      collate_inputs act ?args kw = Inl e \<longrightarrow>
        deferred_action env self pa act args0 kw w
          = (Inl e, w\<lparr>events := events w @ [LockEnter ?c, CollateInputs, LockExit ?c]\<rparr>)"
    by (simp add: deferred_action_probe cache_probe_def Let_def log_def)
  have c: "named_pool (cache_store w ?c) = Some np \<and> \<not> contains_proxies ?args kw \<and>
      collate_inputs act ?args kw = Inr ci \<and> coerce_user_input act ci = Inl e \<longrightarrow>
        deferred_action env self pa act args0 kw w
          = (Inl e, w\<lparr>events := events w @ [LockEnter ?c, CollateInputs, CoerceUserInput,
                                            LockExit ?c]\<rparr>)"
    by (simp add: deferred_action_probe cache_probe_def Let_def log_def)
  have d: "named_pool (cache_store w ?c) = None \<longrightarrow>
        deferred_action env self pa act args0 kw w
          = execute env self act ?args kw (w\<lparr>events := events w @ [LockEnter ?c, LockExit ?c]\<rparr>)"
    by (simp add: deferred_action_probe cache_probe_def Let_def log_def)
  from a b c d show ?thesis by (simp add: Let_def)
qed

lemma key0_eq: "invocation_of ''p:a'' kw0 = key0"
  by (simp add: invocation_of_def kw0_def key0_def)

lemma load_cache_stale:
  "load_cache ctx0 act0 key0
     (world_stale\<lparr>events := [LockEnter 0, CollateInputs, CoerceUserInput, IndexProbe 0 key0]\<rparr>)
   = (Inl KeyError,
      world_stale\<lparr>events := [LockEnter 0, CollateInputs, CoerceUserInput, IndexProbe 0 key0,
                              PoolLoad 0 (Ref ''u0'')]\<rparr>)"
  by (simp add: load_cache_def load_collection_output_def validate_collection_def
      named_pool_load_def log_def Let_def world_stale_def pool_stale_def example_defs)

theorem missing_storage_is_a_miss_witness:
  "named_pool (cache_store world_stale (cache ctx0)) = Some pool_stale \<and>
   contents pool_stale = [] \<and>
   map_of (index pool_stale) key0 \<noteq> None \<and>
   deferred_action env0 ctx0 ''p:a'' act0 [Value ''f''] kw0 world_stale =
     (Inr (Results [(''ran'', LoadedResult ''fresh'')]),
      world_stale\<lparr>events := [LockEnter 0, CollateInputs, CoerceUserInput, IndexProbe 0 key0,
                              PoolLoad 0 (Ref ''u0''), LockExit 0, Bind]\<rparr>)"
proof -
  have np: "named_pool (cache_store world_stale (cache ctx0)) = Some pool_stale"
    by (simp add: world_stale_def world_with_def)
  have em: "contents pool_stale = []" by (simp add: pool_stale_def)
  have ix: "map_of (index pool_stale) (invocation_of ''p:a'' kw0) \<noteq> None"
    by (simp add: key0_eq pool_stale_def index_good_def)
  have px: "\<not> contains_proxies (drop 1 [Value ''f'']) kw0"
    by (simp add: contains_proxies_def kw0_def)
  have co: "collate_inputs act0 (drop 1 [Value ''f'']) kw0 = Inr kw0"
    by (simp add: act0_def)
  have ce: "coerce_user_input act0 kw0 = Inr kw0" by (simp add: act0_def)
  have c0: "cache ctx0 = 0" by (simp add: ctx0_def)
  have ev: "events world_stale = []" by (simp add: world_stale_def world_with_def)
  let ?w2 = "world_stale\<lparr>events := [LockEnter 0, CollateInputs, CoerceUserInput,
      IndexProbe 0 key0, PoolLoad 0 (Ref ''u0'')]\<rparr>"
  have lc: "load_cache ctx0 act0 (invocation_of ''p:a'' kw0)
     (world_stale\<lparr>events := events world_stale @ [LockEnter (cache ctx0), CollateInputs,
        CoerceUserInput, IndexProbe (cache ctx0) (invocation_of ''p:a'' kw0)]\<rparr>)
     = (Inl KeyError, ?w2)"
    by (simp add: key0_eq c0 ev load_cache_stale)
  have ex: "execute env0 ctx0 act0 (drop 1 [Value ''f'']) kw0 (log (LockExit (cache ctx0)) ?w2)
     = (Inr (Results [(''ran'', LoadedResult ''fresh'')]),
        world_stale\<lparr>events := [LockEnter 0, CollateInputs, CoerceUserInput, IndexProbe 0 key0,
                              PoolLoad 0 (Ref ''u0''), LockExit 0, Bind]\<rparr>)"
    by (simp add: execute_def ctx0_def act0_def log_def)
  from missing_storage_is_a_miss [of ctx0 "[Value ''f'']" "''p:a''" kw0 world_stale
      pool_stale kw0 act0 kw0 ?w2 env0 AssertionError] np ix px co ce lc
  have "deferred_action env0 ctx0 ''p:a'' act0 [Value ''f''] kw0 world_stale
     = execute env0 ctx0 act0 (drop 1 [Value ''f'']) kw0 (log (LockExit (cache ctx0)) ?w2)"
    by (simp add: Let_def)
  with ex np em ix show ?thesis by (simp add: key0_eq)
qed

lemma named_pool_load_indep:
  "cache_store w = cache_store w' \<Longrightarrow>
   fst (named_pool_load self obj w) = fst (named_pool_load self obj w')"
  by (simp add: named_pool_load_def split: option.splits)

lemma load_collection_indep:
  "cache_store w = cache_store w' \<Longrightarrow>
   fst (load_collection self cc order acc w) = fst (load_collection self cc order acc w')"
proof (induction order arbitrary: acc w w')
  case Nil
  show ?case by simp
next
  case (Cons e rest)
  show ?case
  proof (cases "map_of cc e")
    case None
    then show ?thesis by simp
  next
    case (Some elem)
    obtain r1 w1 where a: "named_pool_load self (Ref elem) w = (r1, w1)"
      by (cases "named_pool_load self (Ref elem) w")
    obtain r2 w2 where b: "named_pool_load self (Ref elem) w' = (r2, w2)"
      by (cases "named_pool_load self (Ref elem) w'")
    from Cons.prems
    have "fst (named_pool_load self (Ref elem) w) = fst (named_pool_load self (Ref elem) w')"
      by (rule named_pool_load_indep)
    with a b have r: "r2 = r1" by simp
    have s: "cache_store w1 = cache_store w2"
      using named_pool_load_reads [OF a] named_pool_load_reads [OF b] Cons.prems
      by (simp add: reads_only_def)
    show ?thesis
    proof (cases r1)
      case (Inl err)
      with Some a b r show ?thesis by simp
    next
      case (Inr v)
      with Some a b r show ?thesis using Cons.IH [OF s] by simp
    qed
  qed
qed

lemma load_collection_output_indep:
  "cache_store w = cache_store w' \<Longrightarrow>
   fst (load_collection_output self cached w) = fst (load_collection_output self cached w')"
proof (cases cached)
  case (Ref h)
  then show ?thesis by (simp add: load_collection_output_def)
next
  case (ElemDict cc)
  assume s: "cache_store w = cache_store w'"
  show ?thesis
  proof (cases "validate_collection (map fst cc)")
    case (Inl err)
    with ElemDict show ?thesis by (simp add: load_collection_output_def)
  next
    case (Inr u)
    with ElemDict show ?thesis
      using load_collection_indep [OF s] by (simp add: load_collection_output_def)
  qed
qed

lemma load_outputs_indep:
  "cache_store w = cache_store w' \<Longrightarrow>
   fst (load_outputs self co outs acc w) = fst (load_outputs self co outs acc w')"
proof (induction outs arbitrary: acc w w')
  case Nil
  show ?case by simp
next
  case (Cons out rest)
  obtain name is_coll where out: "out = (name, is_coll)" by (cases out)
  show ?case
  proof (cases "map_of co name")
    case None
    with out show ?thesis by simp
  next
    case (Some cached)
    show ?thesis
    proof (cases is_coll)
      case True
      obtain r1 w1 where a: "load_collection_output self cached w = (r1, w1)"
        by (cases "load_collection_output self cached w")
      obtain r2 w2 where b: "load_collection_output self cached w' = (r2, w2)"
        by (cases "load_collection_output self cached w'")
      from Cons.prems
      have "fst (load_collection_output self cached w) = fst (load_collection_output self cached w')"
        by (rule load_collection_output_indep)
      with a b have r: "r2 = r1" by simp
      have s: "cache_store w1 = cache_store w2"
        using load_collection_output_reads [OF a] load_collection_output_reads [OF b] Cons.prems
        by (simp add: reads_only_def)
      show ?thesis
      proof (cases r1)
        case (Inl err)
        with out Some True a b r show ?thesis by simp
      next
        case (Inr v)
        with out Some True a b r show ?thesis using Cons.IH [OF s] by simp
      qed
    next
      case False
      obtain r1 w1 where a: "named_pool_load self cached w = (r1, w1)"
        by (cases "named_pool_load self cached w")
      obtain r2 w2 where b: "named_pool_load self cached w' = (r2, w2)"
        by (cases "named_pool_load self cached w'")
      from Cons.prems
      have "fst (named_pool_load self cached w) = fst (named_pool_load self cached w')"
        by (rule named_pool_load_indep)
      with a b have r: "r2 = r1" by simp
      have s: "cache_store w1 = cache_store w2"
        using named_pool_load_reads [OF a] named_pool_load_reads [OF b] Cons.prems
        by (simp add: reads_only_def)
      show ?thesis
      proof (cases r1)
        case (Inl err)
        with out Some False a b r show ?thesis by simp
      next
        case (Inr v)
        with out Some False a b r show ?thesis using Cons.IH [OF s] by simp
      qed
    qed
  qed
qed

lemma load_cache_indep:
  assumes s: "cache_store w = cache_store w'"
  shows "fst (load_cache self act key w) = fst (load_cache self act key w')"
proof (cases "named_pool (cache_store w (cache self))")
  case None
  with s show ?thesis by (simp add: load_cache_def)
next
  case (Some np)
  show ?thesis
  proof (cases "map_of (index np) key")
    case None
    with Some s show ?thesis by (simp add: load_cache_def)
  next
    case (Some co)
    obtain r1 w1 where a: "load_outputs self co (outputs act) [] w = (r1, w1)"
      by (cases "load_outputs self co (outputs act) [] w")
    obtain r2 w2 where b: "load_outputs self co (outputs act) [] w' = (r2, w2)"
      by (cases "load_outputs self co (outputs act) [] w'")
    from s have "fst (load_outputs self co (outputs act) [] w)
        = fst (load_outputs self co (outputs act) [] w')"
      by (rule load_outputs_indep)
    with a b have r: "r2 = r1" by simp
    from \<open>named_pool (cache_store w (cache self)) = Some np\<close> s
    have np': "named_pool (cache_store w' (cache self)) = Some np" by simp
    show ?thesis
      using \<open>named_pool (cache_store w (cache self)) = Some np\<close> np' Some a b r
      by (cases r1) (simp_all add: load_cache_def)
  qed
qed

lemma cache_probe_indep:
  assumes s: "cache_store w = cache_store w'"
  shows "fst (cache_probe self pa act args kw w) = fst (cache_probe self pa act args kw w')"
proof (cases "named_pool (cache_store w (cache self))")
  case None
  with s show ?thesis by (simp add: cache_probe_def)
next
  case (Some np)
  note np = this
  from np s have np': "named_pool (cache_store w' (cache self)) = Some np" by simp
  show ?thesis
  proof (cases "contains_proxies args kw")
    case True
    with np np' show ?thesis by (simp add: cache_probe_def)
  next
    case False
    note px = this
    show ?thesis
    proof (cases "collate_inputs act args kw")
      case (Inl e)
      with np np' px show ?thesis by (simp add: cache_probe_def)
    next
      case (Inr ci)
      note ci = this
      show ?thesis
      proof (cases "coerce_user_input act ci")
        case (Inl e)
        with np np' px ci show ?thesis by (simp add: cache_probe_def)
      next
        case (Inr ca)
        note ca = this
        let ?key = "invocation_of pa ca"
        let ?v = "log (IndexProbe (cache self) ?key) (log CoerceUserInput (log CollateInputs w))"
        let ?v' = "log (IndexProbe (cache self) ?key) (log CoerceUserInput (log CollateInputs w'))"
        have sv: "cache_store ?v = cache_store ?v'" using s by simp
        obtain r1 w1 where a: "load_cache self act ?key ?v = (r1, w1)"
          by (cases "load_cache self act ?key ?v")
        obtain r2 w2 where b: "load_cache self act ?key ?v' = (r2, w2)"
          by (cases "load_cache self act ?key ?v'")
        from sv have "fst (load_cache self act ?key ?v) = fst (load_cache self act ?key ?v')"
          by (rule load_cache_indep)
        with a b have r: "r2 = r1" by simp
        show ?thesis
          using np np' px ci ca a b r
          by (cases r1) (simp_all add: cache_probe_def Let_def)
      qed
    qed
  qed
qed

lemma probe_cases:
  "(\<forall>r. fst (cache_probe self pa act args kw (log (LockEnter (cache self)) w)) = Return r \<longleftrightarrow>
      (\<exists>np ci ca. named_pool (cache_store w (cache self)) = Some np \<and>
         \<not> contains_proxies args kw \<and>
         collate_inputs act args kw = Inr ci \<and> coerce_user_input act ci = Inr ca \<and>
         map_of (index np) (invocation_of pa ca) \<noteq> None \<and>
         fst (load_cache self act (invocation_of pa ca)
                (w\<lparr>events := events w @ [LockEnter (cache self), CollateInputs, CoerceUserInput,
                      IndexProbe (cache self) (invocation_of pa ca)]\<rparr>)) = Inr r)) \<and>
   (fst (cache_probe self pa act args kw (log (LockEnter (cache self)) w)) = FallThrough \<longleftrightarrow>
      (named_pool (cache_store w (cache self)) = None \<or> contains_proxies args kw \<or>
       (\<exists>np ci ca. named_pool (cache_store w (cache self)) = Some np \<and>
          collate_inputs act args kw = Inr ci \<and> coerce_user_input act ci = Inr ca \<and>
          (map_of (index np) (invocation_of pa ca) = None \<or>
           fst (load_cache self act (invocation_of pa ca)
                  (w\<lparr>events := events w @ [LockEnter (cache self), CollateInputs,
                        CoerceUserInput, IndexProbe (cache self) (invocation_of pa ca)]\<rparr>))
             = Inl KeyError))))"
proof (cases "named_pool (cache_store w (cache self))")
  case None
  then show ?thesis by (simp add: cache_probe_def)
next
  case (Some np)
  note np = this
  show ?thesis
  proof (cases "contains_proxies args kw")
    case True
    with np show ?thesis by (simp add: cache_probe_def)
  next
    case False
    note px = this
    show ?thesis
    proof (cases "collate_inputs act args kw")
      case (Inl e)
      with np px show ?thesis by (simp add: cache_probe_def)
    next
      case (Inr ci)
      note ci = this
      show ?thesis
      proof (cases "coerce_user_input act ci")
        case (Inl e)
        with np px ci show ?thesis by (simp add: cache_probe_def)
      next
        case (Inr ca)
        note ca = this
        note ev = cache_probe_eval [OF np px ci ca, of pa]
        show ?thesis
          unfolding ev using np px ci ca
          by (auto split: prod.splits sum.splits)
      qed
    qed
  qed
qed

lemma deferred_action_fall_through:
  "fst (cache_probe self pa act (drop 1 args0) kw (log (LockEnter (cache self)) w)) = FallThrough
   \<Longrightarrow> deferred_action env self pa act args0 kw w =
     execute env self act (drop 1 args0) kw
       (log (LockExit (cache self))
          (snd (cache_probe self pa act (drop 1 args0) kw (log (LockEnter (cache self)) w))))"
  unfolding deferred_action_probe
  by (cases "cache_probe self pa act (drop 1 args0) kw (log (LockEnter (cache self)) w)") simp

text \<open>
  Claim C1, as amended. A call through the handle has one of three outcomes, decided by the
  probe of the cache under the lock. The probe returns cached outputs exactly when there is
  a named pool, no argument is a proxy, both normalisation steps succeed, the key is in the
  index and reconstruction succeeds; the call then returns those outputs, and the events
  it logs are reads only: the action is not run and nothing is saved. The probe falls
  through exactly when there is no named pool, or an argument is a proxy, or the key is not
  in the index, or reconstruction raises \<open>KeyError\<close>; the call then executes the action,
  and what it logged before the execution are reads only. Otherwise the probe raises, and
  the call returns that error without running the action.

  Of two identical calls in a row: a call that returned cached outputs returns the same
  outputs when it is repeated in the world it left, and a call that executed the action
  executes it again when the execution left the cache store as it was. The dispatcher
  writes nothing to the index, so the second call is a hit only if the execution itself
  recorded its outputs under the key.
\<close>

theorem dispatch_returns_cached_or_executes_or_raises:
  "(let c = cache self; args = drop 1 args0;
        p = cache_probe self pa act args kw (log (LockEnter c) w) in
     (\<forall>r. fst p = Return r \<longleftrightarrow>
        (\<exists>np ci ca. named_pool (cache_store w c) = Some np \<and>
           \<not> contains_proxies args kw \<and>
           collate_inputs act args kw = Inr ci \<and> coerce_user_input act ci = Inr ca \<and>
           map_of (index np) (invocation_of pa ca) \<noteq> None \<and>
           fst (load_cache self act (invocation_of pa ca)
                  (w\<lparr>events := events w @ [LockEnter c, CollateInputs, CoerceUserInput,
                        IndexProbe c (invocation_of pa ca)]\<rparr>)) = Inr r)) \<and>
     (\<forall>r. fst p = Return r \<longrightarrow>
        deferred_action env self pa act args0 kw w = (Inr r, log (LockExit c) (snd p)) \<and>
        reads_only w (log (LockExit c) (snd p))) \<and>
     (fst p = FallThrough \<longleftrightarrow>
        (named_pool (cache_store w c) = None \<or> contains_proxies args kw \<or>
         (\<exists>np ci ca. named_pool (cache_store w c) = Some np \<and>
            collate_inputs act args kw = Inr ci \<and> coerce_user_input act ci = Inr ca \<and>
            (map_of (index np) (invocation_of pa ca) = None \<or>
             fst (load_cache self act (invocation_of pa ca)
                    (w\<lparr>events := events w @ [LockEnter c, CollateInputs, CoerceUserInput,
                          IndexProbe c (invocation_of pa ca)]\<rparr>)) = Inl KeyError)))) \<and>
     (fst p = FallThrough \<longrightarrow>
        deferred_action env self pa act args0 kw w
          = execute env self act args kw (log (LockExit c) (snd p)) \<and>
        reads_only w (log (LockExit c) (snd p))) \<and>
     (\<forall>e. fst p = Raise e \<longrightarrow>
        deferred_action env self pa act args0 kw w = (Inl e, log (LockExit c) (snd p)) \<and>
        reads_only w (log (LockExit c) (snd p))) \<and>
     (\<forall>r. fst p = Return r \<longrightarrow>
        fst (deferred_action env self pa act args0 kw
               (snd (deferred_action env self pa act args0 kw w))) = Inr r) \<and>
     (fst p = FallThrough \<and>
      cache_store (snd (deferred_action env self pa act args0 kw w)) = cache_store w \<longrightarrow>
        deferred_action env self pa act args0 kw
            (snd (deferred_action env self pa act args0 kw w))
          = execute env self act args kw
              (log (LockExit c)
                 (snd (cache_probe self pa act args kw
                         (log (LockEnter c)
                            (snd (deferred_action env self pa act args0 kw w))))))))"
proof -
  let ?c = "cache self"
  let ?args = "drop 1 args0"
  let ?p = "cache_probe self pa act ?args kw (log (LockEnter ?c) w)"
  let ?wd = "snd (deferred_action env self pa act args0 kw w)"
  obtain pr pw where p: "?p = (pr, pw)" by (cases ?p)
  have "reads_only (log (LockEnter ?c) w) pw"
    using p by (rule cache_probe_reads)
  moreover have "reads_only w (log (LockEnter ?c) w)"
    by (rule reads_only_log) simp
  ultimately have "reads_only w pw" using reads_only_trans by blast
  then have ro: "reads_only w (log (LockExit ?c) (snd ?p))"
    using p by (simp add: reads_only_log_trans)
  have d: "deferred_action env self pa act args0 kw w =
     (case pr of
        Return r \<Rightarrow> (Inr r, log (LockExit ?c) pw)
      | Raise e \<Rightarrow> (Inl e, log (LockExit ?c) pw)
      | FallThrough \<Rightarrow> execute env self act ?args kw (log (LockExit ?c) pw))"
    unfolding deferred_action_probe p by simp
  have 2: "\<forall>r. fst ?p = Return r \<longrightarrow>
        deferred_action env self pa act args0 kw w = (Inr r, log (LockExit ?c) (snd ?p)) \<and>
        reads_only w (log (LockExit ?c) (snd ?p))"
    using ro d p by simp
  have 4: "fst ?p = FallThrough \<longrightarrow>
        deferred_action env self pa act args0 kw w
          = execute env self act ?args kw (log (LockExit ?c) (snd ?p)) \<and>
        reads_only w (log (LockExit ?c) (snd ?p))"
    using ro d p by simp
  have 5: "\<forall>e. fst ?p = Raise e \<longrightarrow>
        deferred_action env self pa act args0 kw w = (Inl e, log (LockExit ?c) (snd ?p)) \<and>
        reads_only w (log (LockExit ?c) (snd ?p))"
    using ro d p by simp
  have 6: "\<forall>r. fst ?p = Return r \<longrightarrow>
        fst (deferred_action env self pa act args0 kw
               (snd (deferred_action env self pa act args0 kw w))) = Inr r"
  proof (intro allI impI)
    fix r
    assume h: "fst ?p = Return r"
    let ?w' = "log (LockExit ?c) (snd ?p)"
    from h 2 have dw: "snd (deferred_action env self pa act args0 kw w) = ?w'"
      by simp
    from ro have "cache_store ?w' = cache_store w" by (simp add: reads_only_def)
    then have "cache_store (log (LockEnter ?c) ?w') = cache_store (log (LockEnter ?c) w)"
      by simp
    then have "fst (cache_probe self pa act ?args kw (log (LockEnter ?c) ?w')) = fst ?p"
      by (rule cache_probe_indep)
    with h have h': "fst (cache_probe self pa act ?args kw (log (LockEnter ?c) ?w')) = Return r"
      by simp
    obtain qr qw where q: "cache_probe self pa act ?args kw (log (LockEnter ?c) ?w') = (qr, qw)"
      by (cases "cache_probe self pa act ?args kw (log (LockEnter ?c) ?w')")
    with h' have "qr = Return r" by simp
    with q have "deferred_action env self pa act args0 kw ?w' = (Inr r, log (LockExit ?c) qw)"
      unfolding deferred_action_probe by simp
    with dw show "fst (deferred_action env self pa act args0 kw
               (snd (deferred_action env self pa act args0 kw w))) = Inr r"
      by simp
  qed
  have 7: "fst ?p = FallThrough \<and> cache_store ?wd = cache_store w \<longrightarrow>
        deferred_action env self pa act args0 kw ?wd
          = execute env self act ?args kw
              (log (LockExit ?c)
                 (snd (cache_probe self pa act ?args kw (log (LockEnter ?c) ?wd))))"
  proof
    assume h: "fst ?p = FallThrough \<and> cache_store ?wd = cache_store w"
    then have "cache_store (log (LockEnter ?c) ?wd) = cache_store (log (LockEnter ?c) w)"
      by simp
    then have "fst (cache_probe self pa act ?args kw (log (LockEnter ?c) ?wd)) = fst ?p"
      by (rule cache_probe_indep)
    with h have "fst (cache_probe self pa act ?args kw (log (LockEnter ?c) ?wd)) = FallThrough"
      by simp
    then show "deferred_action env self pa act args0 kw ?wd
          = execute env self act ?args kw
              (log (LockExit ?c)
                 (snd (cache_probe self pa act ?args kw (log (LockEnter ?c) ?wd))))"
      by (rule deferred_action_fall_through)
  qed
  note 13 = probe_cases [of self pa act ?args kw w]
  from 13 2 4 5 6 7 show ?thesis
    unfolding Let_def by blast
qed

lemma probe_good:
  "cache_probe ctx0 ''p:a'' act0 (drop 1 [Value ''f'']) kw0 (log (LockEnter (cache ctx0)) world_good)
   = (Return (Results
        [(''out'', ResultCollection
            [(''a'', ''r0''), (''b'', ''r1''), (''c'', ''r2''), (''d'', ''r3''), (''e'', ''r4'')]),
         (''single'', LoadedResult ''r0'')]),
      world_good\<lparr>events := [LockEnter 0, CollateInputs, CoerceUserInput, IndexProbe 0 key0,
          PoolLoad 0 (Ref ''u0''), PoolLoad 0 (Ref ''u1''), PoolLoad 0 (Ref ''u2''),
          PoolLoad 0 (Ref ''u3''), PoolLoad 0 (Ref ''u4''), PoolLoad 0 (Ref ''u0'')]\<rparr>)"
  by (simp add: cache_probe_def contains_proxies_def invocation_of_def load_cache_def
      load_collection_output_def validate_collection_def named_pool_load_def log_def Let_def
      world_good_def pool_good_def example_defs)

theorem dispatch_returns_cached_or_executes_or_raises_witness:
  "deferred_action env0 ctx0 ''p:a'' act0 [Value ''f''] kw0 world_good =
     (Inr (Results
        [(''out'', ResultCollection
            [(''a'', ''r0''), (''b'', ''r1''), (''c'', ''r2''), (''d'', ''r3''), (''e'', ''r4'')]),
         (''single'', LoadedResult ''r0'')]),
      world_good\<lparr>events := [LockEnter 0, CollateInputs, CoerceUserInput, IndexProbe 0 key0,
          PoolLoad 0 (Ref ''u0''), PoolLoad 0 (Ref ''u1''), PoolLoad 0 (Ref ''u2''),
          PoolLoad 0 (Ref ''u3''), PoolLoad 0 (Ref ''u4''), PoolLoad 0 (Ref ''u0''),
          LockExit 0]\<rparr>) \<and>
   fst (deferred_action env0 ctx0 ''p:a'' act0 [Value ''f''] kw0
          (snd (deferred_action env0 ctx0 ''p:a'' act0 [Value ''f''] kw0 world_good))) =
     Inr (Results
        [(''out'', ResultCollection
            [(''a'', ''r0''), (''b'', ''r1''), (''c'', ''r2''), (''d'', ''r3''), (''e'', ''r4'')]),
         (''single'', LoadedResult ''r0'')])"
proof -
  note t = dispatch_returns_cached_or_executes_or_raises
    [of ctx0 "[Value ''f'']" "''p:a''" act0 kw0 world_good env0]
  have c: "cache ctx0 = 0" by (simp add: ctx0_def)
  from t have "\<forall>r. fst (cache_probe ctx0 ''p:a'' act0 (drop 1 [Value ''f'']) kw0
        (log (LockEnter (cache ctx0)) world_good)) = Return r \<longrightarrow>
      deferred_action env0 ctx0 ''p:a'' act0 [Value ''f''] kw0 world_good
        = (Inr r, log (LockExit (cache ctx0))
             (snd (cache_probe ctx0 ''p:a'' act0 (drop 1 [Value ''f'']) kw0
                (log (LockEnter (cache ctx0)) world_good))))"
    unfolding Let_def by blast
  then have first: "deferred_action env0 ctx0 ''p:a'' act0 [Value ''f''] kw0 world_good =
     (Inr (Results
        [(''out'', ResultCollection
            [(''a'', ''r0''), (''b'', ''r1''), (''c'', ''r2''), (''d'', ''r3''), (''e'', ''r4'')]),
         (''single'', LoadedResult ''r0'')]),
      world_good\<lparr>events := [LockEnter 0, CollateInputs, CoerceUserInput, IndexProbe 0 key0,
          PoolLoad 0 (Ref ''u0''), PoolLoad 0 (Ref ''u1''), PoolLoad 0 (Ref ''u2''),
          PoolLoad 0 (Ref ''u3''), PoolLoad 0 (Ref ''u4''), PoolLoad 0 (Ref ''u0''),
          LockExit 0]\<rparr>)"
    unfolding probe_good by (simp add: log_def c)
  from t have "\<forall>r. fst (cache_probe ctx0 ''p:a'' act0 (drop 1 [Value ''f'']) kw0
        (log (LockEnter (cache ctx0)) world_good)) = Return r \<longrightarrow>
      fst (deferred_action env0 ctx0 ''p:a'' act0 [Value ''f''] kw0
             (snd (deferred_action env0 ctx0 ''p:a'' act0 [Value ''f''] kw0 world_good))) = Inr r"
    unfolding Let_def by blast
  then have again: "fst (deferred_action env0 ctx0 ''p:a'' act0 [Value ''f''] kw0
          (snd (deferred_action env0 ctx0 ''p:a'' act0 [Value ''f''] kw0 world_good))) =
     Inr (Results
        [(''out'', ResultCollection
            [(''a'', ''r0''), (''b'', ''r1''), (''c'', ''r2''), (''d'', ''r3''), (''e'', ''r4'')]),
         (''single'', LoadedResult ''r0'')])"
    unfolding probe_good by simp
  from first again show ?thesis by (rule conjI)
qed

text \<open>
  Claim C1 as stated fails in both of its parts.

  A call can end with neither of the two outcomes. The key is in the index, every element
  its record refers to is in storage, and the collection of the record has four elements
  that declare a total of five. The call raises \<open>AssertionError\<close>: it returns no cached
  outputs and it does not execute the action.

  The same call made twice against a named pool can execute the action twice. The pool has
  an empty index and the action, when run, saves nothing. The first call probes the index,
  misses and runs the action; the second call, made in the world the first one left, probes
  the index, misses again and runs the action again: \<open>Bind\<close> is logged twice.
\<close>

theorem dispatch_raises_and_executes_twice:
  "named_pool (cache_store world_corrupt 0) = Some pool_corrupt \<and>
   \<not> contains_proxies (drop 1 [Value ''f'']) kw0 \<and>
   map_of (index pool_corrupt) key0 = Some [(''out'', ElemDict four_of_five), (''single'', Ref ''u0'')] \<and>
   load pool_corrupt (Ref ''u0'') = Inr ''r0'' \<and>
   load pool_corrupt (Ref ''u1'') = Inr ''r1'' \<and>
   load pool_corrupt (Ref ''u2'') = Inr ''r2'' \<and>
   load pool_corrupt (Ref ''u3'') = Inr ''r3'' \<and>
   deferred_action env0 ctx0 ''p:a'' act0 [Value ''f''] kw0 world_corrupt =
     (Inl AssertionError,
      world_corrupt\<lparr>events := [LockEnter 0, CollateInputs, CoerceUserInput, IndexProbe 0 key0,
                                LockExit 0]\<rparr>) \<and>
   named_pool (cache_store world0 0) = Some pool0 \<and>
   index pool0 = [] \<and>
   deferred_action env0 ctx0 ''p:a'' act0 [Value ''f''] kw0 world0 =
     (Inr (Results [(''ran'', LoadedResult ''fresh'')]),
      world0\<lparr>events := [LockEnter 0, CollateInputs, CoerceUserInput, IndexProbe 0 key0,
                         LockExit 0, Bind]\<rparr>) \<and>
   deferred_action env0 ctx0 ''p:a'' act0 [Value ''f''] kw0
       (snd (deferred_action env0 ctx0 ''p:a'' act0 [Value ''f''] kw0 world0)) =
     (Inr (Results [(''ran'', LoadedResult ''fresh'')]),
      world0\<lparr>events := [LockEnter 0, CollateInputs, CoerceUserInput, IndexProbe 0 key0,
                         LockExit 0, Bind,
                         LockEnter 0, CollateInputs, CoerceUserInput, IndexProbe 0 key0,
                         LockExit 0, Bind]\<rparr>) \<and>
   length (filter (\<lambda>e. e = Bind)
     (events (snd (deferred_action env0 ctx0 ''p:a'' act0 [Value ''f''] kw0
        (snd (deferred_action env0 ctx0 ''p:a'' act0 [Value ''f''] kw0 world0)))))) = 2"
  by (simp add: deferred_action_def cache_probe_def contains_proxies_def invocation_of_def
      load_cache_def load_collection_output_def validate_collection_def named_pool_load_def
      execute_def log_def Let_def world_corrupt_def pool_corrupt_def example_defs)

text \<open>
  Claim C3 as stated fails in its second sentence: an error other than missing storage can
  be recovered instead of propagated. The record of the key lacks the declared output
  \<open>single\<close> while every element of the pool is in storage; the lookup of that output
  in the record raises \<open>KeyError\<close> after the collection has been loaded, and the call
  executes the action instead of returning the error.
\<close>

theorem record_key_error_is_swallowed:
  "named_pool (cache_store world_partial 0) = Some pool_partial \<and>
   \<not> contains_proxies (drop 1 [Value ''f'']) kw0 \<and>
   map_of (index pool_partial) key0 = Some [(''out'', ElemDict five_shuffled)] \<and>
   outputs act0 = [(''out'', True), (''single'', False)] \<and>
   load pool_partial (Ref ''u0'') = Inr ''r0'' \<and>
   load pool_partial (Ref ''u1'') = Inr ''r1'' \<and>
   load pool_partial (Ref ''u2'') = Inr ''r2'' \<and>
   load pool_partial (Ref ''u3'') = Inr ''r3'' \<and>
   load pool_partial (Ref ''u4'') = Inr ''r4'' \<and>
   deferred_action env0 ctx0 ''p:a'' act0 [Value ''f''] kw0 world_partial =
     (Inr (Results [(''ran'', LoadedResult ''fresh'')]),
      world_partial\<lparr>events := [LockEnter 0, CollateInputs, CoerceUserInput, IndexProbe 0 key0,
          PoolLoad 0 (Ref ''u0''), PoolLoad 0 (Ref ''u1''), PoolLoad 0 (Ref ''u2''),
          PoolLoad 0 (Ref ''u3''), PoolLoad 0 (Ref ''u4''), LockExit 0, Bind]\<rparr>)"
  by (simp add: deferred_action_def cache_probe_def contains_proxies_def invocation_of_def
      load_cache_def load_collection_output_def validate_collection_def named_pool_load_def
      execute_def log_def Let_def world_partial_def pool_partial_def index_partial_def
      example_defs)

end
